theory Spec2Isabelle
  imports Main
begin

section \<open>Variable expansion of ucfg (vendor/github.com/urso/ucfg/variables.go)\<close>

text \<open>
  Go strings are byte sequences: they are modelled as \<^typ>\<open>string\<close> (lists of 8-bit
  characters). The trigger characters of the lexer are ASCII, so looking for them byte by
  byte is what \<^verbatim>\<open>strings.IndexAny\<close> does.
\<close>

subsection \<open>Errors\<close>

text \<open>
  \<^verbatim>\<open>ErrMissing\<close> is the package's sentinel; \<^verbatim>\<open>errors.New\<close> and
  \<^verbatim>\<open>fmt.Errorf\<close> build an error from its message; a run-time panic (nil
  dereference, index out of range) is a result of its own; \<open>ErrExternal\<close> stands for
  whatever else the lookup, the string conversion or a resolver callback may report.
\<close>

datatype 'e error =
    ErrMissing
  | ErrorString string
  | Panic string
  | ErrExternal 'e

subsection \<open>Tokens and the lexer\<close>

datatype tokenType = tokOpen | tokClose | tokSep | tokString

record token =
  typ' :: tokenType
  val :: string

definition opDefault :: string where "opDefault = '':''"
definition opAlternative :: string where "opAlternative = '':+''"
definition opError :: string where "opError = '':?''"

definition openToken :: token where "openToken = \<lparr>typ' = tokOpen, val = ''${''\<rparr>"
definition closeToken :: token where "closeToken = \<lparr>typ' = tokClose, val = ''}''\<rparr>"
definition sepDefToken :: token where "sepDefToken = \<lparr>typ' = tokSep, val = opDefault\<rparr>"
definition sepAltToken :: token where "sepAltToken = \<lparr>typ' = tokSep, val = opAlternative\<rparr>"
definition sepErrToken :: token where "sepErrToken = \<lparr>typ' = tokSep, val = opError\<rparr>"

text \<open>\<^verbatim>\<open>strings.IndexAny(s, chars)\<close>: the first index of a byte of \<open>chars\<close> in \<open>s\<close>;
  \<open>None\<close> is Go's \<open>-1\<close>.\<close>

fun indexAny :: "string \<Rightarrow> string \<Rightarrow> nat option" where
  "indexAny [] chars = None"
| "indexAny (c # cs) chars =
     (if c \<in> set chars then Some 0 else map_option Suc (indexAny cs chars))"

text \<open>The closure \<^verbatim>\<open>strToken\<close>: a string token, unless the text is empty.\<close>

definition strToken :: "string \<Rightarrow> token list" where
  "strToken s = (if s \<noteq> [] then [\<lparr>typ' = tokString, val = s\<rparr>] else [])"

text \<open>The deferred function of the lexer goroutine: what is left of \<open>content\<close> is sent as
  a last string token when it is not empty.\<close>

definition flush :: "string \<Rightarrow> token list" where
  "flush content = (if 0 < length content then [\<lparr>typ' = tokString, val = content\<rparr>] else [])"

text \<open>
  One iteration of the lexer's loop \<^verbatim>\<open>for len(content) > 0\<close>, from the state
  \<open>(content, off, varcount)\<close>: either the goroutine returns (\<open>Stop\<close>, with the tokens of the
  deferred flush), or it sends tokens and goes round again in a new state (\<open>Next\<close>).
  The \<^verbatim>\<open>continue\<close> of the \<open>$$\<close> case keeps \<open>off\<close>; every other path ends in
  \<^verbatim>\<open>content = content[off:]; off = 0\<close>. The indices are within the text wherever
  the source indexes or slices it. \<open>varcount\<close> is a Go \<open>int\<close>: it changes by one
  per token, so it stays far from the bounds of its type.
\<close>

datatype lexStep = Stop "token list" | Next "token list" string nat int

definition triggers :: "int \<Rightarrow> string" where
  "triggers varcount = (if varcount = 0 then ''$'' else ''$:}'')"

definition lexer_step :: "string \<Rightarrow> nat \<Rightarrow> int \<Rightarrow> lexStep" where
  "lexer_step content off varcount =
     (case indexAny (drop off content) (triggers varcount) of
        None \<Rightarrow> Stop (flush content)
      | Some i \<Rightarrow>
          (let idx = i + off; off' = idx + 1 in
           if content ! idx = CHR '':'' then
             (if length content \<le> off' then Stop (flush content)
              else if content ! off' = CHR ''+'' then
                Next (strToken (take idx content) @ [sepAltToken]) (drop (off' + 1) content) 0 varcount
              else if content ! off' = CHR ''?'' then
                Next (strToken (take idx content) @ [sepErrToken]) (drop (off' + 1) content) 0 varcount
              else
                Next (strToken (take idx content) @ [sepDefToken]) (drop off' content) 0 varcount)
           else if content ! idx = CHR ''}'' then
             Next (strToken (take idx content) @ [closeToken]) (drop off' content) 0 (varcount - 1)
           else if content ! idx = CHR ''$'' then
             (if length content \<le> off' then Stop (flush content)
              else if content ! off' = CHR ''$'' then
                Next [] (take off' content @ drop (off' + 1) content) off' varcount
              else if content ! off' = CHR ''{'' then
                Next (strToken (take idx content) @ [openToken]) (drop (off' + 1) content) 0 (varcount + 1)
              else
                Next [] (drop off' content) 0 varcount)
           else Next [] (drop off' content) 0 varcount))"

lemma indexAny_SomeD:
  "indexAny s chars = Some i \<Longrightarrow> i < length s \<and> s ! i \<in> set chars"
  by (induction s arbitrary: i) (auto split: if_splits)

lemma lexer_step_shrinks:
  assumes "lexer_step content off varcount = Next toks content' off' varcount'"
  shows "length content' < length content"
proof -
  obtain i where i: "indexAny (drop off content) (triggers varcount) = Some i"
    using assms by (auto simp: lexer_step_def split: option.splits)
  have "i < length (drop off content)"
    using indexAny_SomeD [OF i] by simp
  hence lt: "i + off < length content" by simp
  show ?thesis
    using assms i lt
    by (auto simp: lexer_step_def Let_def split: if_splits)
qed

function lexer_loop :: "string \<Rightarrow> nat \<Rightarrow> int \<Rightarrow> token list" where
  "lexer_loop content off varcount =
     (if 0 < length content then
        (case lexer_step content off varcount of
           Stop toks \<Rightarrow> toks
         | Next toks content' off' varcount' \<Rightarrow> toks @ lexer_loop content' off' varcount')
      else flush content)"
  by pat_completeness auto
termination
  by (relation "measure (\<lambda>(content, off, varcount). length content)")
     (auto dest: lexer_step_shrinks)

declare lexer_loop.simps [simp del]

text \<open>\<^verbatim>\<open>lexer(in)\<close>: the tokens sent on the channel, in order. The error channel is
  closed without anything being sent on it.\<close>

definition lexer :: "string \<Rightarrow> token list" where
  "lexer inp = lexer_loop inp 0 0"

subsection \<open>The expression tree\<close>

text \<open>
  The implementations of the interface \<^verbatim>\<open>varEvaler\<close>: \<^verbatim>\<open>constExp\<close>,
  \<^verbatim>\<open>*reference\<close>, \<^verbatim>\<open>*splice\<close> and \<^verbatim>\<open>*expansion\<close> (fields
  \<open>left\<close>, \<open>right\<close>, \<open>pathSep\<close>, \<open>op\<close>). The parser builds expansions whose
  \<open>right\<close> is nil, so \<open>right\<close> is an option; \<open>left\<close> is never nil in a value the code
  builds. The type \<^verbatim>\<open>cfgPath\<close> is declared in another file of the package: it is the
  type parameter \<open>'p\<close>.
\<close>

datatype 'p varEvaler =
    ConstExp string
  | Reference 'p
  | Splice "'p varEvaler list"
  | Expansion "'p varEvaler" "'p varEvaler option" string string

subsection \<open>The parser\<close>

datatype side = stLeft | stRight

record 'p parseState =
  st :: side
  isvar :: bool
  op :: string
  pieces :: "side \<Rightarrow> 'p varEvaler list"

text \<open>The closure \<^verbatim>\<open>extract\<close> of \<^verbatim>\<open>finalize\<close>.\<close>

fun extract' :: "'p varEvaler list \<Rightarrow> 'p varEvaler" where
  "extract' [] = ConstExp []"
| "extract' [p] = p"
| "extract' ps = Splice ps"

text \<open>The result of \<^verbatim>\<open>finalize\<close> in state \<open>stLeft\<close> once the pieces are known not
  to be empty: a reference for a single constant, else an expansion without operator
  whose left side is the splice of the pieces.\<close>

fun finalizeLeft :: "(string \<Rightarrow> string \<Rightarrow> 'p) \<Rightarrow> string \<Rightarrow> 'p varEvaler list \<Rightarrow> 'p varEvaler" where
  "finalizeLeft pp pathSep [ConstExp str] = Reference (pp str pathSep)"
| "finalizeLeft pp pathSep ps = Expansion (Splice ps) None pathSep []"

text \<open>\<^verbatim>\<open>parsePath\<close> is a function of another file of the package: it is the
  parameter \<open>pp\<close> of the parser.\<close>

definition finalize ::
  "(string \<Rightarrow> string \<Rightarrow> 'p) \<Rightarrow> 'p parseState \<Rightarrow> string \<Rightarrow> 'e error + 'p varEvaler" where
  "finalize pp fr pathSep =
     (if \<not> isvar fr then Inl (ErrorString ''fatal: processing non-variable state'')
      else if length (pieces fr stLeft) = 0 then Inl (ErrorString ''empty expansion'')
      else if st fr = stLeft then
        (if length (pieces fr stLeft) = 0 then Inr (ConstExp [])
         else Inr (finalizeLeft pp pathSep (pieces fr stLeft)))
      else Inr (Expansion (extract' (pieces fr stLeft)) (Some (extract' (pieces fr stRight)))
                  pathSep (op fr)))"

text \<open>\<^verbatim>\<open>st.pieces[st.st] = append(st.pieces[st.st], piece)\<close>\<close>

definition appendPiece :: "'p parseState \<Rightarrow> 'p varEvaler \<Rightarrow> 'p parseState" where
  "appendPiece fr piece = fr\<lparr>pieces := (pieces fr)(st fr := pieces fr (st fr) @ [piece])\<rparr>"

definition errMissingBrace :: string where
  "errMissingBrace = ''missing '' @ [CHR 0x27, CHR ''}'', CHR 0x27]"

definition errUnexpectedSep :: string where
  "errUnexpectedSep = ''unexpected '' @ [CHR 0x27, CHR '':'', CHR 0x27]"

text \<open>
  The parser loop \<^verbatim>\<open>for tok := range lex\<close> over the stack of parse states; as in
  the source the top of the stack is its last element and the root state is
  \<open>stack[0]\<close>. Indexing an empty stack panics. The channel \<open>lex\<close> is the list of the
  tokens that the parser has not received yet: when the parser returns an error from
  inside the loop, the tokens after the current one are still to be received, and they
  are returned with the error.
\<close>

fun parseLoop ::
  "(string \<Rightarrow> string \<Rightarrow> 'p) \<Rightarrow> string \<Rightarrow> token list \<Rightarrow> 'p parseState list
     \<Rightarrow> ('e error \<times> token list) + 'p parseState list" where
  "parseLoop pp pathSep [] stack = Inr stack"
| "parseLoop pp pathSep (tok # toks) stack =
     (case typ' tok of
        tokOpen \<Rightarrow>
          parseLoop pp pathSep toks
            (stack @ [\<lparr>st = stLeft, isvar = True, op = [], pieces = (\<lambda>s. [])\<rparr>])
      | tokClose \<Rightarrow>
          (if stack = [] then Inl (Panic ''index out of range'', toks)
           else case finalize pp (last stack) pathSep of
               Inl err \<Rightarrow> Inl (err, toks)
             | Inr piece \<Rightarrow>
                 (if butlast stack = [] then Inl (Panic ''index out of range'', toks)
                  else parseLoop pp pathSep toks
                         (butlast (butlast stack) @ [appendPiece (last (butlast stack)) piece])))
      | tokSep \<Rightarrow>
          (if stack = [] then Inl (Panic ''index out of range'', toks)
           else if \<not> isvar (last stack) then
             Inl (ErrorString ''default separator not within expansion'', toks)
           else if st (last stack) = stRight then Inl (ErrorString errUnexpectedSep, toks)
           else parseLoop pp pathSep toks
                  (butlast stack @ [(last stack)\<lparr>st := stRight, op := val tok\<rparr>]))
      | tokString \<Rightarrow>
          (if stack = [] then Inl (Panic ''index out of range'', toks)
           else parseLoop pp pathSep toks
                  (butlast stack @ [appendPiece (last stack) (ConstExp (val tok))])))"

text \<open>\<^verbatim>\<open>parseVarExp\<close>: its result, or its error together with the tokens left in
  the channel (none once the loop has ended).\<close>

definition parseVarExp ::
  "(string \<Rightarrow> string \<Rightarrow> 'p) \<Rightarrow> token list \<Rightarrow> string
     \<Rightarrow> ('e error \<times> token list) + 'p varEvaler" where
  "parseVarExp pp toks pathSep =
     (case parseLoop pp pathSep toks [\<lparr>st = stLeft, isvar = False, op = [], pieces = (\<lambda>s. [])\<rparr>] of
        Inl err \<Rightarrow> Inl err
      | Inr stack \<Rightarrow>
          (if 1 < length stack then Inl (ErrorString errMissingBrace, [])
           else if length stack = 0 then Inl (ErrorString ''fatal: expansion parse state empty'', [])
           else (let result = pieces (stack ! 0) stLeft in
                 if length result = 1 then Inr (result ! 0) else Inr (Splice result))))"

fun isPanic :: "'e error \<Rightarrow> bool" where
  "isPanic (Panic msg) = True"
| "isPanic err = False"

text \<open>
  \<^verbatim>\<open>parseSplice\<close>. The lexer is a goroutine that sends the tokens on a channel
  with a buffer of one token and closes the channel \<open>errs\<close>, on which it never sends,
  only when it has sent them all. After the parser has returned, \<open>parseSplice\<close>
  receives from \<open>errs\<close> before it returns, and the function that drains \<open>lex\<close> is
  deferred until that return. So when the parser has returned an error with two tokens
  or more still to come, the lexer blocks on sending the second of them and
  \<open>parseSplice\<close> waits on \<open>errs\<close> for ever: it does not return, which is the result
  \<open>None\<close>. With one token or none to come, the lexer ends and \<open>parseSplice\<close> returns
  the parser's error; after a success the channel is empty and it returns the parser's
  result. A panic of the parser is not a return and waits for nothing.
\<close>

definition parseSplice ::
  "(string \<Rightarrow> string \<Rightarrow> 'p) \<Rightarrow> string \<Rightarrow> string \<Rightarrow> ('e error + 'p varEvaler) option" where
  "parseSplice pp inp pathSep =
     (case parseVarExp pp (lexer inp) pathSep of
        Inr pieces' \<Rightarrow> Some (Inr pieces')
      | Inl (perr, unreceived) \<Rightarrow>
          (if isPanic perr \<or> length unreceived \<le> 1 then Some (Inl perr) else None))"

subsection \<open>Configuration, options and the collaborators of the evaluator\<close>

text \<open>
  Of \<^verbatim>\<open>*Config\<close> this file uses only \<^verbatim>\<open>Parent()\<close>: a configuration is a
  node with a content of type \<open>'c\<close> and a parent pointer, and a \<^verbatim>\<open>*Config\<close> that may
  be nil is a \<open>'c config option\<close>. Of \<^verbatim>\<open>*options\<close> it uses \<open>env\<close>, the
  fallback roots (a slice of pointers, each of which may be nil), and \<open>resolvers\<close>, the
  callbacks \<^verbatim>\<open>func(string) (string, error)\<close>.
\<close>

datatype 'c config = Config 'c "'c config option"

record ('c, 'e) options =
  env :: "'c config option list"
  resolvers :: "(string \<Rightarrow> 'e error + string) list"

text \<open>
  The functions and methods of other files of the package that the evaluator calls are
  the fields of a record, so that every theorem holds whatever they compute:
  \<^verbatim>\<open>cfgPath.GetValue(cfg, opts)\<close> (an error, or a value that may be nil),
  \<^verbatim>\<open>cfgPath.String()\<close>, \<^verbatim>\<open>parsePath(in, sep)\<close>,
  \<^verbatim>\<open>newString(context{field: key}, nil, v)\<close> and \<^verbatim>\<open>value.toString(opts)\<close>.
\<close>

record ('c, 'p, 'v, 'e) extern =
  getValue :: "'p \<Rightarrow> 'c config \<Rightarrow> ('c, 'e) options \<Rightarrow> 'e error + 'v option"
  pathString :: "'p \<Rightarrow> string"
  parsePath :: "string \<Rightarrow> string \<Rightarrow> 'p"
  newString :: "string \<Rightarrow> string \<Rightarrow> 'v"
  toString :: "'v \<Rightarrow> ('c, 'e) options \<Rightarrow> 'e error + string"

subsection \<open>Resolving a reference\<close>

text \<open>The loop of \<^verbatim>\<open>cfgRoot\<close> on a configuration that is not nil
  (\<^verbatim>\<open>Parent()\<close> is the second field of the node), and \<^verbatim>\<open>cfgRoot\<close> itself.\<close>

fun cfgRootLoop :: "'c config \<Rightarrow> 'c config" where
  "cfgRootLoop (Config c None) = Config c None"
| "cfgRootLoop (Config c (Some p)) = cfgRootLoop p"

fun cfgRoot :: "'c config option \<Rightarrow> 'c config option" where
  "cfgRoot None = None"
| "cfgRoot (Some cfg) = Some (cfgRootLoop cfg)"

text \<open>
  The first loop of \<^verbatim>\<open>resolve\<close> either returns from the function or is left by
  \<^verbatim>\<open>break\<close>, with the variable \<open>err\<close> nil or set.
\<close>

datatype ('v, 'e) loopExit = Return "'e error + 'v option" | Break "'e error option"

function resolveLoop ::
  "('c, 'p, 'v, 'e) extern \<Rightarrow> 'p \<Rightarrow> ('c, 'e) options \<Rightarrow> 'c config option
     \<Rightarrow> 'c config option list \<Rightarrow> ('v, 'e) loopExit" where
  "resolveLoop X path opts cfg env' =
     (case cfgRoot cfg of
        None \<Rightarrow> Return (Inl ErrMissing)
      | Some root \<Rightarrow>
          (case getValue X path root opts of
             Inr None \<Rightarrow> Break None
           | Inr (Some v) \<Rightarrow> Return (Inr (Some v))
           | Inl err \<Rightarrow>
               (if length env' = 0 then Break (Some err)
                else resolveLoop X path opts (last env') (butlast env'))))"
  by pat_completeness auto
termination
  by (relation "measure (\<lambda>(X, path, opts, cfg, env'). length env')") auto

text \<open>
  The second loop, over the callbacks: \<open>rs\<close> is the list of the resolvers in the order
  in which the loop calls them, that is \<open>resolvers\<close> reversed; \<open>err\<close> is the variable
  of the same name, which the function returns when no callback succeeds.
\<close>

fun tryResolvers ::
  "('c, 'p, 'v, 'e) extern \<Rightarrow> string \<Rightarrow> (string \<Rightarrow> 'e error + string) list
     \<Rightarrow> 'e error option \<Rightarrow> 'e error + 'v option" where
  "tryResolvers X key [] err = (case err of None \<Rightarrow> Inr None | Some e \<Rightarrow> Inl e)"
| "tryResolvers X key (resolver # rs) err =
     (case resolver key of
        Inr v \<Rightarrow> Inr (Some (newString X key v))
      | Inl e \<Rightarrow> tryResolvers X key rs (Some e))"

definition resolve ::
  "('c, 'p, 'v, 'e) extern \<Rightarrow> 'c config option \<Rightarrow> ('c, 'e) options \<Rightarrow> 'p
     \<Rightarrow> 'e error + 'v option" where
  "resolve X cfg opts path =
     (case resolveLoop X path opts cfg (env opts) of
        Return r \<Rightarrow> r
      | Break err \<Rightarrow> tryResolvers X (pathString X path) (rev (resolvers opts)) err)"

subsection \<open>Evaluation\<close>

text \<open>\<^verbatim>\<open>reference.eval\<close>; the verb \<open>%v\<close> prints the path with its
  \<^verbatim>\<open>String\<close> method.\<close>

definition referenceEval ::
  "('c, 'p, 'v, 'e) extern \<Rightarrow> 'c config option \<Rightarrow> ('c, 'e) options \<Rightarrow> 'p
     \<Rightarrow> 'e error + string" where
  "referenceEval X cfg opts path =
     (case resolve X cfg opts path of
        Inl err \<Rightarrow> Inl err
      | Inr None \<Rightarrow> Inl (ErrorString (''can not resolve reference: '' @ pathString X path))
      | Inr (Some v) \<Rightarrow> toString X v opts)"

text \<open>
  \<open>eval\<close> is the method \<^verbatim>\<open>eval\<close> of the four node types, \<open>evalPieces\<close> the loop
  of \<^verbatim>\<open>splice.eval\<close> with its buffer, \<open>evalRight\<close> the call
  \<^verbatim>\<open>e.right.eval(cfg, opts)\<close>, which panics when \<open>right\<close> is nil, and
  \<open>evalMessage\<close> the end of the case \<^verbatim>\<open>opError\<close> (the evaluation of \<open>right\<close>
  and \<^verbatim>\<open>errors.New(errStr)\<close>). A result \<open>Panic\<close> is not an error that a call
  has returned: the panic unwinds through \<^verbatim>\<open>expansion.eval\<close>, which has no
  \<^verbatim>\<open>recover\<close>, so wherever the source tests \<^verbatim>\<open>err != nil\<close> after a call the
  model first hands a \<open>Panic\<close> on as it is.
\<close>

fun eval ::
    "('c, 'p, 'v, 'e) extern \<Rightarrow> 'c config option \<Rightarrow> ('c, 'e) options \<Rightarrow> 'p varEvaler
       \<Rightarrow> 'e error + string"
  and evalPieces ::
    "('c, 'p, 'v, 'e) extern \<Rightarrow> 'c config option \<Rightarrow> ('c, 'e) options \<Rightarrow> 'p varEvaler list
       \<Rightarrow> string \<Rightarrow> 'e error + string"
  and evalRight ::
    "('c, 'p, 'v, 'e) extern \<Rightarrow> 'c config option \<Rightarrow> ('c, 'e) options
       \<Rightarrow> 'p varEvaler option \<Rightarrow> 'e error + string"
  and evalMessage ::
    "('c, 'p, 'v, 'e) extern \<Rightarrow> 'c config option \<Rightarrow> ('c, 'e) options
       \<Rightarrow> 'p varEvaler option \<Rightarrow> 'e error + string"
where
  "eval X cfg opts (ConstExp s) = Inr s"
| "eval X cfg opts (Reference path) = referenceEval X cfg opts path"
| "eval X cfg opts (Splice ps) = evalPieces X cfg opts ps []"
| "eval X cfg opts (Expansion left right pathSep op') =
     (if op' = opDefault then
        (case eval X cfg opts left of
           Inl err \<Rightarrow> if isPanic err then Inl err else evalRight X cfg opts right
         | Inr path \<Rightarrow>
             (if path = [] then evalRight X cfg opts right
              else (case referenceEval X cfg opts (parsePath X path pathSep) of
                      Inl err \<Rightarrow> if isPanic err then Inl err else evalRight X cfg opts right
                    | Inr v \<Rightarrow> if v = [] then evalRight X cfg opts right else Inr v)))
      else if op' = opAlternative then
        (case eval X cfg opts left of
           Inl err \<Rightarrow> if isPanic err then Inl err else Inr []
         | Inr path \<Rightarrow>
             (if path = [] then Inr []
              else (case resolve X cfg opts (parsePath X path pathSep) of
                      Inl err \<Rightarrow> if isPanic err then Inl err else Inr []
                    | Inr None \<Rightarrow> Inr []
                    | Inr (Some tmp) \<Rightarrow> evalRight X cfg opts right)))
      else if op' = opError then
        (case eval X cfg opts left of
           Inl err \<Rightarrow> if isPanic err then Inl err else evalMessage X cfg opts right
         | Inr path \<Rightarrow>
             (if path \<noteq> [] then
                (case referenceEval X cfg opts (parsePath X path pathSep) of
                   Inl err \<Rightarrow> if isPanic err then Inl err else evalMessage X cfg opts right
                 | Inr str \<Rightarrow> if str \<noteq> [] then Inr str else evalMessage X cfg opts right)
              else evalMessage X cfg opts right))
      else if op' = [] then
        (case eval X cfg opts left of
           Inl err \<Rightarrow> Inl err
         | Inr path \<Rightarrow> referenceEval X cfg opts (parsePath X path pathSep))
      else Inl (ErrorString (''Unknown expansion op: '' @ op')))"
| "evalPieces X cfg opts [] buf = Inr buf"
| "evalPieces X cfg opts (p # ps) buf =
     (case eval X cfg opts p of
        Inl err \<Rightarrow> Inl err
      | Inr s \<Rightarrow> evalPieces X cfg opts ps (buf @ s))"
| "evalRight X cfg opts None = Inl (Panic ''nil pointer dereference'')"
| "evalRight X cfg opts (Some right) = eval X cfg opts right"
| "evalMessage X cfg opts right =
     (case evalRight X cfg opts right of
        Inl err \<Rightarrow> Inl err
      | Inr errStr \<Rightarrow> Inl (ErrorString errStr))"

text \<open>
  Modelled from the spec: the entry point \<open>expand(input, pathSeparator, context)\<close>,
  composing lex, parse and evaluate. The caller of \<^verbatim>\<open>parseSplice\<close> and
  \<^verbatim>\<open>eval\<close> is in another file of the package. The result is \<open>None\<close> when
  \<open>parseSplice\<close> does not return.
\<close>

definition expand ::
  "('c, 'p, 'v, 'e) extern \<Rightarrow> 'c config option \<Rightarrow> ('c, 'e) options \<Rightarrow> string \<Rightarrow> string
     \<Rightarrow> ('e error + string) option" where
  "expand X cfg opts inp pathSep =
     (case parseSplice (parsePath X) inp pathSep of
        None \<Rightarrow> None
      | Some (Inl err) \<Rightarrow> Some (Inl err)
      | Some (Inr e) \<Rightarrow> Some (eval X cfg opts e))"

subsection \<open>A concrete set of collaborators\<close>

text \<open>
  To evaluate the model at concrete inputs: a tree is an association list from path
  texts to values that may be nil, looking up a path that is not in the list fails with
  \<open>ErrMissing\<close>, paths and values are strings, and a string converts to itself.
\<close>

type_synonym sampleTree = "(string \<times> string option) list"

fun sampleGetValue ::
  "string \<Rightarrow> sampleTree config \<Rightarrow> (sampleTree, unit) options \<Rightarrow> unit error + string option" where
  "sampleGetValue path (Config kvs p) opts =
     (case map_of kvs path of None \<Rightarrow> Inl ErrMissing | Some v \<Rightarrow> Inr v)"

definition sampleExtern :: "(sampleTree, string, string, unit) extern" where
  "sampleExtern =
     \<lparr>getValue = sampleGetValue, pathString = (\<lambda>path. path), parsePath = (\<lambda>s sep. s),
      newString = (\<lambda>key v. v), toString = (\<lambda>v opts. Inr v)\<rparr>"

definition noOptions :: "(sampleTree, unit) options" where
  "noOptions = \<lparr>env = [], resolvers = []\<rparr>"

definition sampleRoot :: "sampleTree config" where
  "sampleRoot = Config [(''a'', Some ''x''), (''n'', None), (''e'', Some [])] None"

definition sampleNode :: "sampleTree config" where
  "sampleNode = Config [(''b'', Some ''y'')] (Some sampleRoot)"





definition failingResolver :: "string \<Rightarrow> unit error + string" where
  "failingResolver key = Inl ErrMissing"

subsection \<open>Functions used to state the properties\<close>

text \<open>Doubling every \<open>$\<close> of a text: the input that writes the text with each \<open>$\<close>
  escaped as \<open>$$\<close>.\<close>

fun escapeDollars :: "string \<Rightarrow> string" where
  "escapeDollars [] = []"
| "escapeDollars (c # cs) =
     (if c = CHR ''$'' then ''$$'' @ escapeDollars cs else c # escapeDollars cs)"

text \<open>
  The shape of the splices of a tree: \<open>splicesOk\<close> holds when every splice has two
  pieces or more, except a splice that is the left side of an expansion whose \<open>right\<close>
  is nil, which has one piece or more (\<open>computedPathOk\<close>; such an expansion has no
  other kind of left side). \<open>rootOk\<close> is the same for the root of a tree, where a
  splice may also have no piece.
\<close>

fun splicesOk :: "'p varEvaler \<Rightarrow> bool"
  and computedPathOk :: "'p varEvaler \<Rightarrow> bool" where
  "splicesOk (ConstExp s) = True"
| "splicesOk (Reference path) = True"
| "splicesOk (Splice ps) = (2 \<le> length ps \<and> list_all splicesOk ps)"
| "splicesOk (Expansion left None sep op') = computedPathOk left"
| "splicesOk (Expansion left (Some right) sep op') = (splicesOk left \<and> splicesOk right)"
| "computedPathOk (Splice ps) = (1 \<le> length ps \<and> list_all splicesOk ps)"
| "computedPathOk (ConstExp s) = False"
| "computedPathOk (Reference path) = False"
| "computedPathOk (Expansion left right sep op') = False"

fun rootOk :: "'p varEvaler \<Rightarrow> bool" where
  "rootOk (Splice ps) = (length ps \<noteq> 1 \<and> list_all splicesOk ps)"
| "rootOk e = splicesOk e"

text \<open>The paths of the reference nodes of a tree.\<close>

fun references :: "'p varEvaler \<Rightarrow> 'p list" where
  "references (ConstExp s) = []"
| "references (Reference path) = [path]"
| "references (Splice ps) = concat (map references ps)"
| "references (Expansion left None sep op') = references left"
| "references (Expansion left (Some right) sep op') = references left @ references right"

text \<open>
  Invariants of the parser: \<open>framePieces Q\<close> holds of a parse state whose pieces, on
  both sides, all satisfy \<open>Q\<close>; \<open>pieceOk\<close> holds of a piece that is a constant with a
  text that is not empty, or another node whose references are all parsed from a text
  that is not empty.
\<close>

definition framePieces :: "('p varEvaler \<Rightarrow> bool) \<Rightarrow> 'p parseState \<Rightarrow> bool" where
  "framePieces Q fr = (list_all Q (pieces fr stLeft) \<and> list_all Q (pieces fr stRight))"

fun pieceOk :: "(string \<Rightarrow> string \<Rightarrow> 'p) \<Rightarrow> string \<Rightarrow> 'p varEvaler \<Rightarrow> bool" where
  "pieceOk pp sep (ConstExp s) = (s \<noteq> [])"
| "pieceOk pp sep e = (set (references e) \<subseteq> (\<lambda>s. pp s sep) ` {s. s \<noteq> []})"

text \<open>
  The lexer and the parser in step: \<open>stackFor varcount stack\<close> holds when the stack
  of the parser has one frame for the root and one frame of a variable for each of the
  \<open>varcount\<close> expansions that the lexer has open; \<open>unreachableError\<close> holds of the
  error that \<open>finalize\<close> reports for a frame that is not a variable and of the
  panics; \<open>stepOk\<close> holds of a list of tokens that takes a stack for one count to a
  stack for another, or to an error that is not one of those (the type of the errors
  of the parser is the type argument \<open>ty\<close>).
\<close>

definition stackFor :: "int \<Rightarrow> 'p parseState list \<Rightarrow> bool" where
  "stackFor varcount stack =
     (0 \<le> varcount \<and> length stack = nat varcount + 1 \<and> list_all isvar (tl stack))"

definition unreachableError :: "'e error \<Rightarrow> bool" where
  "unreachableError err =
     (err = ErrorString ''fatal: processing non-variable state'' \<or> isPanic err)"

definition stepOk ::
  "(string \<Rightarrow> string \<Rightarrow> 'p) \<Rightarrow> string \<Rightarrow> 'e itself \<Rightarrow> int \<Rightarrow> int \<Rightarrow> token list \<Rightarrow> bool" where
  "stepOk pp sep ty varcount varcount' toks =
     (\<forall>stack. stackFor varcount stack \<longrightarrow>
        (case (parseLoop pp sep toks stack :: ('e error \<times> token list) + 'p parseState list) of
           Inl (err, rest) \<Rightarrow> \<not> unreachableError err
         | Inr stack' \<Rightarrow> stackFor varcount' stack'))"

section \<open>Properties\<close>

subsection \<open>The order of the sources of a reference\<close>









subsection \<open>The operators of an expansion\<close>

lemma absent_referenceEval:
  assumes "resolve X cfg opts path = Inr None
           \<or> (\<exists>err. resolve X cfg opts path = Inl err \<and> \<not> isPanic err)"
  shows "\<exists>err. referenceEval X cfg opts path = Inl err \<and> \<not> isPanic err"
  using assms by (auto simp: referenceEval_def)

lemma lexer_missing_default:
  "lexer ''${missing:default}'' =
     [openToken, \<lparr>typ' = tokString, val = ''missing''\<rparr>, sepDefToken,
      \<lparr>typ' = tokString, val = ''default''\<rparr>, closeToken]"
  by code_simp

lemma parse_missing_default:
  "parseSplice pp ''${missing:default}'' sep =
     Some (Inr (Expansion (ConstExp ''missing'') (Some (ConstExp ''default'')) sep '':''))"
  unfolding parseSplice_def lexer_missing_default
  by (simp add: parseVarExp_def openToken_def closeToken_def sepDefToken_def finalize_def
      appendPiece_def opDefault_def)

text \<open>
  C2. An expansion with operator \<open>:\<close>, in every context: when the evaluation of
  \<open>left\<close> fails (it returns an error) or gives the empty string, the result is the
  evaluation of \<open>right\<close> (the failure of \<open>left\<close> is never the result); otherwise the
  string of \<open>left\<close> is parsed into a reference, and when evaluating that reference
  fails or gives the empty string the result is again the evaluation of \<open>right\<close>,
  else it is the string of the reference. A panic in the evaluation of \<open>left\<close> is not
  a failure that the call returns: it is the outcome of the whole evaluation. In
  particular \<open>${missing:default}\<close> expands to \<open>default\<close> when resolving \<open>missing\<close>
  gives no value or fails.
\<close>

theorem expansion_default_eval:
  "(eval X cfg opts left = Inl err \<and> \<not> isPanic err \<longrightarrow>
      eval X cfg opts (Expansion left (Some right) sep '':'') = eval X cfg opts right)
   \<and> (eval X cfg opts left = Inr [] \<longrightarrow>
      eval X cfg opts (Expansion left (Some right) sep '':'') = eval X cfg opts right)
   \<and> (eval X cfg opts left = Inr path \<and> path \<noteq> []
        \<and> referenceEval X cfg opts (parsePath X path sep) = Inl err' \<and> \<not> isPanic err' \<longrightarrow>
      eval X cfg opts (Expansion left (Some right) sep '':'') = eval X cfg opts right)
   \<and> (eval X cfg opts left = Inr path \<and> path \<noteq> []
        \<and> referenceEval X cfg opts (parsePath X path sep) = Inr [] \<longrightarrow>
      eval X cfg opts (Expansion left (Some right) sep '':'') = eval X cfg opts right)
   \<and> (eval X cfg opts left = Inr path \<and> path \<noteq> []
        \<and> referenceEval X cfg opts (parsePath X path sep) = Inr v \<and> v \<noteq> [] \<longrightarrow>
      eval X cfg opts (Expansion left (Some right) sep '':'') = Inr v)
   \<and> (eval X cfg opts left = Inl err \<and> isPanic err \<longrightarrow>
      eval X cfg opts (Expansion left right' sep '':'') = Inl err)
   \<and> (resolve X cfg opts (parsePath X ''missing'' sep) = Inr None
        \<or> (\<exists>e. resolve X cfg opts (parsePath X ''missing'' sep) = Inl e \<and> \<not> isPanic e) \<longrightarrow>
      expand X cfg opts ''${missing:default}'' sep = Some (Inr ''default''))"
proof -
  have ex: "expand X cfg opts ''${missing:default}'' sep = Some (Inr ''default'')"
    if "resolve X cfg opts (parsePath X ''missing'' sep) = Inr None
        \<or> (\<exists>e. resolve X cfg opts (parsePath X ''missing'' sep) = Inl e \<and> \<not> isPanic e)"
  proof -
    from absent_referenceEval [OF that] obtain e where
      "referenceEval X cfg opts (parsePath X ''missing'' sep) = Inl e" "\<not> isPanic e"
      by blast
    then show ?thesis
      by (simp add: expand_def parse_missing_default opDefault_def)
  qed
  show ?thesis
    using ex by (simp add: opDefault_def)
qed

theorem expansion_default_eval_witness:
  "eval sampleExtern (Some sampleNode) noOptions (Reference ''b'') = Inl ErrMissing
   \<and> \<not> isPanic (ErrMissing :: unit error)
   \<and> eval sampleExtern (Some sampleNode) noOptions
         (Expansion (Reference ''b'') (Some (ConstExp ''d'')) ''.'' '':'') = Inr ''d''
   \<and> eval sampleExtern (Some sampleNode) noOptions
         (Expansion (ConstExp []) (Some (ConstExp ''d'')) ''.'' '':'') = Inr ''d''
   \<and> referenceEval sampleExtern (Some sampleNode) noOptions ''b'' = Inl ErrMissing
   \<and> eval sampleExtern (Some sampleNode) noOptions
         (Expansion (ConstExp ''b'') (Some (ConstExp ''d'')) ''.'' '':'') = Inr ''d''
   \<and> referenceEval sampleExtern (Some sampleNode) noOptions ''e'' = Inr []
   \<and> eval sampleExtern (Some sampleNode) noOptions
         (Expansion (ConstExp ''e'') (Some (ConstExp ''d'')) ''.'' '':'') = Inr ''d''
   \<and> referenceEval sampleExtern (Some sampleNode) noOptions ''a'' = Inr ''x''
   \<and> eval sampleExtern (Some sampleNode) noOptions
         (Expansion (ConstExp ''a'') (Some (ConstExp ''d'')) ''.'' '':'') = Inr ''x''
   \<and> eval sampleExtern (Some sampleNode) noOptions (Expansion (Reference ''b'') None ''.'' '':'')
       = Inl (Panic ''nil pointer dereference'')
   \<and> isPanic (Panic ''nil pointer dereference'' :: unit error)
   \<and> eval sampleExtern (Some sampleNode) noOptions
         (Expansion (Expansion (Reference ''b'') None ''.'' '':'') (Some (ConstExp ''d'')) ''.'' '':'')
       = Inl (Panic ''nil pointer dereference'')
   \<and> resolve sampleExtern (Some sampleNode) noOptions ''missing'' = Inl ErrMissing
   \<and> expand sampleExtern (Some sampleNode) noOptions ''${missing:default}'' ''.''
       = Some (Inr ''default'')"
proof -
  have b: "referenceEval sampleExtern (Some sampleNode) noOptions ''b'' = Inl ErrMissing"
    by code_simp
  have e: "referenceEval sampleExtern (Some sampleNode) noOptions ''e'' = Inr []"
    by code_simp
  have a: "referenceEval sampleExtern (Some sampleNode) noOptions ''a'' = Inr ''x''"
    by code_simp
  have m: "resolve sampleExtern (Some sampleNode) noOptions ''missing'' = Inl ErrMissing"
    by code_simp
  have p: "eval sampleExtern (Some sampleNode) noOptions (Expansion (Reference ''b'') None ''.'' '':'')
       = Inl (Panic ''nil pointer dereference'')"
    by code_simp
  have pp: "parsePath sampleExtern = (\<lambda>s sep. s)"
    by (simp add: sampleExtern_def)
  note T = expansion_default_eval [where X = sampleExtern and cfg = "Some sampleNode"
      and opts = noOptions and sep = "''.''" and right = "ConstExp ''d''"]
  show ?thesis
    using T [where left = "Reference ''b''" and err = ErrMissing]
      T [where left = "ConstExp []"]
      T [where left = "ConstExp ''b''" and path = "''b''" and err' = ErrMissing]
      T [where left = "ConstExp ''e''" and path = "''e''"]
      T [where left = "ConstExp ''a''" and path = "''a''" and v = "''x''"]
      T [where left = "Expansion (Reference ''b'') None ''.'' '':''"
         and err = "Panic ''nil pointer dereference''" and right' = "Some (ConstExp ''d'')"]
    by (simp del: eval.simps(4) add: a b e m p pp)
qed

lemma lexer_missing_boom:
  "lexer ''${missing:?boom}'' =
     [openToken, \<lparr>typ' = tokString, val = ''missing''\<rparr>, sepErrToken,
      \<lparr>typ' = tokString, val = ''boom''\<rparr>, closeToken]"
  by code_simp

lemma parse_missing_boom:
  "parseSplice pp ''${missing:?boom}'' sep =
     Some (Inr (Expansion (ConstExp ''missing'') (Some (ConstExp ''boom'')) sep '':?''))"
  unfolding parseSplice_def lexer_missing_boom
  by (simp add: parseVarExp_def openToken_def closeToken_def sepErrToken_def finalize_def
      appendPiece_def opError_def)

text \<open>
  C3. An expansion with operator \<open>:?\<close>, in every context: when \<open>left\<close> evaluates to
  a string that is not empty and the reference parsed from it evaluates to a string that
  is not empty, that string is the result whatever \<open>right\<close> is, even nil (\<open>right\<close> is
  not evaluated). In every other case in which these evaluations return, \<open>right\<close> is
  evaluated: its failure is the result, and otherwise the result is the error whose
  message is exactly the string of \<open>right\<close>. A panic in the evaluation of \<open>left\<close> is
  the outcome of the whole evaluation. So \<open>${missing:?boom}\<close> fails with the message
  \<open>boom\<close> when resolving \<open>missing\<close> gives no value or fails.
\<close>

theorem expansion_error_eval:
  "(eval X cfg opts left = Inr path \<and> path \<noteq> []
      \<and> referenceEval X cfg opts (parsePath X path sep) = Inr str \<and> str \<noteq> [] \<longrightarrow>
    eval X cfg opts (Expansion left right' sep '':?'') = Inr str)
   \<and> (\<not> (\<exists>path str. eval X cfg opts left = Inr path \<and> path \<noteq> []
          \<and> referenceEval X cfg opts (parsePath X path sep) = Inr str \<and> str \<noteq> [])
      \<and> \<not> (\<exists>err. eval X cfg opts left = Inl err \<and> isPanic err)
      \<and> \<not> (\<exists>path err. eval X cfg opts left = Inr path \<and> path \<noteq> []
          \<and> referenceEval X cfg opts (parsePath X path sep) = Inl err \<and> isPanic err) \<longrightarrow>
    eval X cfg opts (Expansion left (Some right) sep '':?'') =
      (case eval X cfg opts right of
         Inl err \<Rightarrow> Inl err
       | Inr errStr \<Rightarrow> Inl (ErrorString errStr)))
   \<and> (eval X cfg opts left = Inl err \<and> isPanic err \<longrightarrow>
    eval X cfg opts (Expansion left right' sep '':?'') = Inl err)
   \<and> (resolve X cfg opts (parsePath X ''missing'' sep) = Inr None
        \<or> (\<exists>e. resolve X cfg opts (parsePath X ''missing'' sep) = Inl e \<and> \<not> isPanic e) \<longrightarrow>
    expand X cfg opts ''${missing:?boom}'' sep = Some (Inl (ErrorString ''boom'')))"
proof (intro conjI impI)
  assume "eval X cfg opts left = Inr path \<and> path \<noteq> []
      \<and> referenceEval X cfg opts (parsePath X path sep) = Inr str \<and> str \<noteq> []"
  then show "eval X cfg opts (Expansion left right' sep '':?'') = Inr str"
    by (simp add: opError_def opDefault_def opAlternative_def)
next
  assume "\<not> (\<exists>path str. eval X cfg opts left = Inr path \<and> path \<noteq> []
          \<and> referenceEval X cfg opts (parsePath X path sep) = Inr str \<and> str \<noteq> [])
      \<and> \<not> (\<exists>err. eval X cfg opts left = Inl err \<and> isPanic err)
      \<and> \<not> (\<exists>path err. eval X cfg opts left = Inr path \<and> path \<noteq> []
          \<and> referenceEval X cfg opts (parsePath X path sep) = Inl err \<and> isPanic err)"
  then show "eval X cfg opts (Expansion left (Some right) sep '':?'') =
      (case eval X cfg opts right of
         Inl err \<Rightarrow> Inl err
       | Inr errStr \<Rightarrow> Inl (ErrorString errStr))"
    by (auto simp: opError_def opDefault_def opAlternative_def split: sum.splits)
next
  assume "eval X cfg opts left = Inl err \<and> isPanic err"
  then show "eval X cfg opts (Expansion left right' sep '':?'') = Inl err"
    by (simp add: opError_def opDefault_def opAlternative_def)
next
  assume "resolve X cfg opts (parsePath X ''missing'' sep) = Inr None
        \<or> (\<exists>e. resolve X cfg opts (parsePath X ''missing'' sep) = Inl e \<and> \<not> isPanic e)"
  from absent_referenceEval [OF this] obtain e where
    "referenceEval X cfg opts (parsePath X ''missing'' sep) = Inl e" "\<not> isPanic e"
    by blast
  then show "expand X cfg opts ''${missing:?boom}'' sep = Some (Inl (ErrorString ''boom''))"
    by (simp add: expand_def parse_missing_boom opError_def opDefault_def opAlternative_def)
qed

theorem expansion_error_eval_witness:
  "referenceEval sampleExtern (Some sampleNode) noOptions ''a'' = Inr ''x''
   \<and> eval sampleExtern (Some sampleNode) noOptions
         (Expansion (ConstExp ''a'') None ''.'' '':?'') = Inr ''x''
   \<and> eval sampleExtern (Some sampleNode) noOptions (Reference ''b'') = Inl ErrMissing
   \<and> eval sampleExtern (Some sampleNode) noOptions
         (Expansion (Reference ''b'') (Some (ConstExp ''msg'')) ''.'' '':?'')
       = Inl (ErrorString ''msg'')
   \<and> eval sampleExtern (Some sampleNode) noOptions (Expansion (Reference ''b'') None ''.'' '':'')
       = Inl (Panic ''nil pointer dereference'')
   \<and> eval sampleExtern (Some sampleNode) noOptions
         (Expansion (Expansion (Reference ''b'') None ''.'' '':'') (Some (ConstExp ''msg'')) ''.'' '':?'')
       = Inl (Panic ''nil pointer dereference'')
   \<and> resolve sampleExtern (Some sampleNode) noOptions ''missing'' = Inl ErrMissing
   \<and> expand sampleExtern (Some sampleNode) noOptions ''${missing:?boom}'' ''.''
       = Some (Inl (ErrorString ''boom''))"
proof -
  have a: "referenceEval sampleExtern (Some sampleNode) noOptions ''a'' = Inr ''x''"
    by code_simp
  have b: "referenceEval sampleExtern (Some sampleNode) noOptions ''b'' = Inl ErrMissing"
    by code_simp
  have m: "resolve sampleExtern (Some sampleNode) noOptions ''missing'' = Inl ErrMissing"
    by code_simp
  have p: "eval sampleExtern (Some sampleNode) noOptions (Expansion (Reference ''b'') None ''.'' '':'')
       = Inl (Panic ''nil pointer dereference'')"
    by code_simp
  have pp: "parsePath sampleExtern = (\<lambda>s sep. s)"
    by (simp add: sampleExtern_def)
  note T = expansion_error_eval [where X = sampleExtern and cfg = "Some sampleNode"
      and opts = noOptions and sep = "''.''"]
  show ?thesis
    using T [where left = "ConstExp ''a''" and path = "''a''" and str = "''x''" and right' = None]
      T [where left = "Reference ''b''" and right = "ConstExp ''msg''"]
      T [where left = "Expansion (Reference ''b'') None ''.'' '':''"
         and err = "Panic ''nil pointer dereference''" and right' = "Some (ConstExp ''msg'')"]
    by (simp del: eval.simps(4) add: a b m p pp)
qed

lemma lexer_present_alt:
  "lexer ''${present:+alt}'' =
     [openToken, \<lparr>typ' = tokString, val = ''present''\<rparr>, sepAltToken,
      \<lparr>typ' = tokString, val = ''alt''\<rparr>, closeToken]"
  by code_simp

lemma parse_present_alt:
  "parseSplice pp ''${present:+alt}'' sep =
     Some (Inr (Expansion (ConstExp ''present'') (Some (ConstExp ''alt'')) sep '':+''))"
  unfolding parseSplice_def lexer_present_alt
  by (simp add: parseVarExp_def openToken_def closeToken_def sepAltToken_def finalize_def
      appendPiece_def opAlternative_def)

text \<open>
  C4. An expansion with operator \<open>:+\<close>, in every context: when the evaluation of
  \<open>left\<close> fails (it returns an error) or gives the empty string, the result is the
  empty string, without failure, whatever \<open>right\<close> is, even nil (\<open>right\<close> is not
  evaluated); when resolving the reference parsed from the string of \<open>left\<close> fails or
  gives no value, the result is again the empty string without failure; when it
  resolves to a value, the result is the evaluation of \<open>right\<close>, whatever the value is
  and whatever its conversion to a string would give. A panic in the evaluation of
  \<open>left\<close> is the outcome of the whole evaluation. So \<open>${present:+alt}\<close> expands to
  \<open>alt\<close> when \<open>present\<close> resolves to a value and to the empty string when resolving
  it gives no value or fails.
\<close>

theorem expansion_alternative_eval:
  "(eval X cfg opts left = Inl err \<and> \<not> isPanic err \<longrightarrow>
      eval X cfg opts (Expansion left right' sep '':+'') = Inr [])
   \<and> (eval X cfg opts left = Inr [] \<longrightarrow>
      eval X cfg opts (Expansion left right' sep '':+'') = Inr [])
   \<and> (eval X cfg opts left = Inr path \<and> path \<noteq> []
        \<and> resolve X cfg opts (parsePath X path sep) = Inl err' \<and> \<not> isPanic err' \<longrightarrow>
      eval X cfg opts (Expansion left right' sep '':+'') = Inr [])
   \<and> (eval X cfg opts left = Inr path \<and> path \<noteq> []
        \<and> resolve X cfg opts (parsePath X path sep) = Inr None \<longrightarrow>
      eval X cfg opts (Expansion left right' sep '':+'') = Inr [])
   \<and> (eval X cfg opts left = Inr path \<and> path \<noteq> []
        \<and> resolve X cfg opts (parsePath X path sep) = Inr (Some v) \<longrightarrow>
      eval X cfg opts (Expansion left (Some right) sep '':+'') = eval X cfg opts right)
   \<and> (eval X cfg opts left = Inl err \<and> isPanic err \<longrightarrow>
      eval X cfg opts (Expansion left right' sep '':+'') = Inl err)
   \<and> (resolve X cfg opts (parsePath X ''present'' sep) = Inr (Some v) \<longrightarrow>
      expand X cfg opts ''${present:+alt}'' sep = Some (Inr ''alt''))
   \<and> (resolve X cfg opts (parsePath X ''present'' sep) = Inr None
        \<or> (\<exists>e. resolve X cfg opts (parsePath X ''present'' sep) = Inl e \<and> \<not> isPanic e) \<longrightarrow>
      expand X cfg opts ''${present:+alt}'' sep = Some (Inr []))"
proof -
  have absent: "expand X cfg opts ''${present:+alt}'' sep = Some (Inr [])"
    if "resolve X cfg opts (parsePath X ''present'' sep) = Inr None
        \<or> (\<exists>e. resolve X cfg opts (parsePath X ''present'' sep) = Inl e \<and> \<not> isPanic e)"
    using that
    by (auto simp: expand_def parse_present_alt opAlternative_def opDefault_def)
  have present: "expand X cfg opts ''${present:+alt}'' sep = Some (Inr ''alt'')"
    if "resolve X cfg opts (parsePath X ''present'' sep) = Inr (Some v)"
    using that
    by (simp add: expand_def parse_present_alt opAlternative_def opDefault_def)
  show ?thesis
    using absent present by (simp add: opAlternative_def opDefault_def)
qed

text \<open>In the witness the string conversion of every value fails: the operator does not
  convert the value it resolves.\<close>

theorem expansion_alternative_eval_witness:
  "eval (sampleExtern\<lparr>toString := (\<lambda>v opts. Inl ErrMissing)\<rparr>) (Some sampleNode) noOptions
       (Reference ''b'') = Inl ErrMissing
   \<and> eval (sampleExtern\<lparr>toString := (\<lambda>v opts. Inl ErrMissing)\<rparr>) (Some sampleNode) noOptions
       (Expansion (Reference ''b'') None ''.'' '':+'') = Inr []
   \<and> eval (sampleExtern\<lparr>toString := (\<lambda>v opts. Inl ErrMissing)\<rparr>) (Some sampleNode) noOptions
       (Expansion (ConstExp []) None ''.'' '':+'') = Inr []
   \<and> resolve (sampleExtern\<lparr>toString := (\<lambda>v opts. Inl ErrMissing)\<rparr>) (Some sampleNode) noOptions
       ''b'' = Inl ErrMissing
   \<and> eval (sampleExtern\<lparr>toString := (\<lambda>v opts. Inl ErrMissing)\<rparr>) (Some sampleNode) noOptions
       (Expansion (ConstExp ''b'') None ''.'' '':+'') = Inr []
   \<and> resolve (sampleExtern\<lparr>toString := (\<lambda>v opts. Inl ErrMissing)\<rparr>) (Some sampleNode) noOptions
       ''n'' = Inr None
   \<and> eval (sampleExtern\<lparr>toString := (\<lambda>v opts. Inl ErrMissing)\<rparr>) (Some sampleNode) noOptions
       (Expansion (ConstExp ''n'') None ''.'' '':+'') = Inr []
   \<and> resolve (sampleExtern\<lparr>toString := (\<lambda>v opts. Inl ErrMissing)\<rparr>) (Some sampleNode) noOptions
       ''a'' = Inr (Some ''x'')
   \<and> eval (sampleExtern\<lparr>toString := (\<lambda>v opts. Inl ErrMissing)\<rparr>) (Some sampleNode) noOptions
       (Expansion (ConstExp ''a'') (Some (ConstExp ''alt'')) ''.'' '':+'') = Inr ''alt''
   \<and> eval (sampleExtern\<lparr>toString := (\<lambda>v opts. Inl ErrMissing)\<rparr>) (Some sampleNode) noOptions
       (Expansion (Reference ''b'') None ''.'' '':'') = Inl (Panic ''nil pointer dereference'')
   \<and> eval (sampleExtern\<lparr>toString := (\<lambda>v opts. Inl ErrMissing)\<rparr>) (Some sampleNode) noOptions
       (Expansion (Expansion (Reference ''b'') None ''.'' '':'') (Some (ConstExp ''alt'')) ''.'' '':+'')
       = Inl (Panic ''nil pointer dereference'')
   \<and> resolve sampleExtern (Some (Config [(''present'', Some ''p'')] None)) noOptions
       ''present'' = Inr (Some ''p'')
   \<and> expand sampleExtern (Some (Config [(''present'', Some ''p'')] None)) noOptions
       ''${present:+alt}'' ''.'' = Some (Inr ''alt'')
   \<and> resolve sampleExtern (Some sampleNode) noOptions ''present'' = Inl ErrMissing
   \<and> expand sampleExtern (Some sampleNode) noOptions ''${present:+alt}'' ''.'' = Some (Inr [])"
proof -
  let ?X = "sampleExtern\<lparr>toString := (\<lambda>v opts. Inl ErrMissing)\<rparr>"
  have b: "resolve ?X (Some sampleNode) noOptions ''b'' = Inl ErrMissing"
    by code_simp
  have n: "resolve ?X (Some sampleNode) noOptions ''n'' = Inr None"
    by code_simp
  have a: "resolve ?X (Some sampleNode) noOptions ''a'' = Inr (Some ''x'')"
    by code_simp
  have p: "resolve sampleExtern (Some (Config [(''present'', Some ''p'')] None)) noOptions
       ''present'' = Inr (Some ''p'')"
    by code_simp
  have q: "resolve sampleExtern (Some sampleNode) noOptions ''present'' = Inl ErrMissing"
    by code_simp
  have k: "eval ?X (Some sampleNode) noOptions (Expansion (Reference ''b'') None ''.'' '':'')
      = Inl (Panic ''nil pointer dereference'')"
    by code_simp
  have pp: "parsePath ?X = (\<lambda>s sep. s)" "parsePath sampleExtern = (\<lambda>s sep. s)"
    by (simp_all add: sampleExtern_def)
  note T = expansion_alternative_eval [where X = "?X" and cfg = "Some sampleNode"
      and opts = noOptions and sep = "''.''" and right' = None]
  show ?thesis
    using T [where left = "Reference ''b''" and err = ErrMissing]
      T [where left = "ConstExp []"]
      T [where left = "ConstExp ''b''" and path = "''b''" and err' = ErrMissing]
      T [where left = "ConstExp ''n''" and path = "''n''"]
      T [where left = "ConstExp ''a''" and path = "''a''" and v = "''x''"
         and right = "ConstExp ''alt''"]
      expansion_alternative_eval [where X = "?X" and cfg = "Some sampleNode"
        and opts = noOptions and sep = "''.''" and right' = "Some (ConstExp ''alt'')"
        and left = "Expansion (Reference ''b'') None ''.'' '':''"
        and err = "Panic ''nil pointer dereference''"]
      expansion_alternative_eval [where X = sampleExtern
        and cfg = "Some (Config [(''present'', Some ''p'')] None)"
        and opts = noOptions and sep = "''.''" and v = "''p''"]
      expansion_alternative_eval [where X = sampleExtern and cfg = "Some sampleNode"
        and opts = noOptions and sep = "''.''"]
    by (simp del: eval.simps(4) add: a b n p q k pp referenceEval_def)
qed

subsection \<open>The lexer: plain text, stray and escaped dollars\<close>

lemma indexAny_None: "set s \<inter> set chars = {} \<Longrightarrow> indexAny s chars = None"
  by (induction s) auto

lemma indexAny_first:
  "set pre \<inter> set chars = {} \<Longrightarrow> c \<in> set chars \<Longrightarrow>
     indexAny (pre @ c # rest) chars = Some (length pre)"
  by (induction pre) auto

lemma lexer_loop_Stop:
  "0 < length content \<Longrightarrow> lexer_step content off varcount = Stop toks \<Longrightarrow>
     lexer_loop content off varcount = toks"
  by (subst lexer_loop.simps) simp

lemma lexer_loop_Next:
  "lexer_step content off varcount = Next toks content' off' varcount' \<Longrightarrow>
     lexer_loop content off varcount = toks @ lexer_loop content' off' varcount'"
proof -
  assume a: "lexer_step content off varcount = Next toks content' off' varcount'"
  have "0 < length content"
    using lexer_step_shrinks [OF a] by (cases content) simp_all
  with a show ?thesis
    by (subst lexer_loop.simps) simp
qed

lemma lexer_loop_Nil: "lexer_loop [] off varcount = []"
  by (subst lexer_loop.simps) (simp add: flush_def)

lemma lexer_no_dollar:
  assumes "CHR ''$'' \<notin> set s"
  shows "lexer s = flush s"
proof (cases "s = []")
  case True
  then show ?thesis by (simp add: lexer_def lexer_loop_Nil flush_def)
next
  case False
  have "lexer_step s 0 0 = Stop (flush s)"
    using assms by (simp add: lexer_step_def triggers_def indexAny_None)
  with False show ?thesis
    by (simp add: lexer_def lexer_loop_Stop)
qed

lemma parseSplice_Inr:
  "(parseSplice pp inp sep :: ('e error + 'p varEvaler) option) = Some (Inr e) \<longleftrightarrow>
     (parseVarExp pp (lexer inp) sep :: ('e error \<times> token list) + 'p varEvaler) = Inr e"
  by (auto simp: parseSplice_def split: sum.splits prod.splits if_splits)

lemma parseVarExp_flush:
  "parseVarExp pp (flush s) sep = Inr (if s = [] then Splice [] else ConstExp s)"
  by (simp add: parseVarExp_def flush_def appendPiece_def)

lemma lexer_step_stray_dollar:
  assumes "indexAny (drop off content) (triggers varcount) = Some i"
    and "content ! (i + off) = CHR ''$''"
    and "i + off + 1 < length content"
    and "content ! (i + off + 1) \<noteq> CHR ''$''"
    and "content ! (i + off + 1) \<noteq> CHR ''{''"
  shows "lexer_step content off varcount = Next [] (drop (i + off + 1) content) 0 varcount"
  using assms by (simp add: lexer_step_def Let_def)

lemma lexer_step_escaped_dollar:
  assumes "indexAny (drop off content) (triggers varcount) = Some i"
    and "content ! (i + off) = CHR ''$''"
    and "i + off + 1 < length content"
    and "content ! (i + off + 1) = CHR ''$''"
  shows "lexer_step content off varcount =
           Next [] (take (i + off + 1) content @ drop (i + off + 2) content) (i + off + 1) varcount"
  using assms by (simp add: lexer_step_def Let_def)

lemma lexer_stray_dollar:
  assumes "CHR ''$'' \<notin> set pre" and "c \<noteq> CHR ''$''" and "c \<noteq> CHR ''{''"
  shows "lexer (pre @ CHR ''$'' # c # rest) = lexer (c # rest)"
proof -
  have "indexAny (drop 0 (pre @ CHR ''$'' # c # rest)) (triggers 0) = Some (length pre)"
    using assms(1) by (simp add: triggers_def indexAny_first)
  then have "lexer_step (pre @ CHR ''$'' # c # rest) 0 0 =
      Next [] (drop (length pre + 0 + 1) (pre @ CHR ''$'' # c # rest)) 0 0"
    using assms(2,3) by (intro lexer_step_stray_dollar) (simp_all add: nth_append)
  then show ?thesis
    by (simp add: lexer_def lexer_loop_Next)
qed

lemma lexer_a_dollar_b: "lexer ''a$b'' = [\<lparr>typ' = tokString, val = ''b''\<rparr>]"
  by code_simp

lemma escapeDollars_plain: "CHR ''$'' \<notin> set s \<Longrightarrow> escapeDollars s = s"
  by (induction s) auto

lemma escapeDollars_split:
  "CHR ''$'' \<notin> set pre \<Longrightarrow>
     escapeDollars (pre @ CHR ''$'' # rest) = pre @ ''$$'' @ escapeDollars rest"
  by (induction pre) auto

lemma lexer_loop_escaped:
  "lexer_loop (seen @ escapeDollars rest) (length seen) 0 = flush (seen @ rest)"
proof (induction "length rest" arbitrary: rest seen rule: less_induct)
  case less
  show ?case
  proof (cases "CHR ''$'' \<in> set rest")
    case False
    then have e: "escapeDollars rest = rest" by (simp add: escapeDollars_plain)
    show ?thesis
    proof (cases "seen @ rest = []")
      case True
      then show ?thesis by (simp add: lexer_loop_Nil flush_def)
    next
      case ne: False
      have "lexer_step (seen @ rest) (length seen) 0 = Stop (flush (seen @ rest))"
        using False by (simp add: lexer_step_def triggers_def indexAny_None)
      with ne show ?thesis
        by (simp add: e lexer_loop_Stop)
    qed
  next
    case True
    then obtain pre rest' where r: "rest = pre @ CHR ''$'' # rest'" "CHR ''$'' \<notin> set pre"
      by (meson split_list_first)
    let ?content = "seen @ pre @ ''$$'' @ escapeDollars rest'"
    have idx: "indexAny (drop (length seen) ?content) (triggers 0) = Some (length pre)"
      using r(2) by (simp add: triggers_def indexAny_first)
    have step: "lexer_step ?content (length seen) 0 =
        Next [] (take (length pre + length seen + 1) ?content
                 @ drop (length pre + length seen + 2) ?content)
             (length pre + length seen + 1) 0"
      using idx by (intro lexer_step_escaped_dollar) (simp_all add: nth_append)
    have c': "take (length pre + length seen + 1) ?content
                 @ drop (length pre + length seen + 2) ?content
              = (seen @ pre @ ''$'') @ escapeDollars rest'"
      by simp
    have "lexer_loop ?content (length seen) 0 =
            lexer_loop ((seen @ pre @ ''$'') @ escapeDollars rest') (length (seen @ pre @ ''$'')) 0"
      using step unfolding c' by (simp add: lexer_loop_Next add.commute)
    also have "\<dots> = flush ((seen @ pre @ ''$'') @ rest')"
      using r(1) by (intro less) simp
    finally show ?thesis
      using r by (simp add: escapeDollars_split)
  qed
qed

lemma lexer_escaped: "lexer (escapeDollars s) = flush s"
  using lexer_loop_escaped [of "[]" s] by (simp add: lexer_def)

text \<open>
  C7. For every input without the character \<open>$\<close>, \<open>expand\<close> returns exactly the
  input, without failure, whatever the configuration tree, the fallback roots, the
  resolver callbacks and the path separator are. Expanding the result again returns it
  unchanged, since it has no \<open>$\<close> either.
\<close>

theorem expand_plain_text:
  "CHR ''$'' \<notin> set s \<longrightarrow> expand X cfg opts s sep = Some (Inr s)"
  by (simp add: expand_def parseSplice_def lexer_no_dollar parseVarExp_flush)

theorem expand_plain_text_witness:
  "CHR ''$'' \<notin> set ''a:b}c'' \<and> expand sampleExtern (Some sampleNode) noOptions ''a:b}c'' ''.'' = Some (Inr ''a:b}c'')
   \<and> CHR ''$'' \<notin> set ''''
   \<and> expand sampleExtern None \<lparr>env = [None], resolvers = [failingResolver]\<rparr> '''' ''/'' = Some (Inr '''')"
  using expand_plain_text [of "''a:b}c''" sampleExtern "Some sampleNode" noOptions "''.''"]
    expand_plain_text [of "''''" sampleExtern None "\<lparr>env = [None], resolvers = [failingResolver]\<rparr>" "''/''"]
  by simp

text \<open>
  C6 (as amended). Whenever the scan of the lexer stops at a \<open>$\<close> that is not the last
  character of the remaining text and is followed by a character other than \<open>$\<close> and
  \<open>{\<close>, the lexer goes on with the text after that \<open>$\<close> and sends no token: the
  \<open>$\<close> and the text accumulated before it are dropped. So an input whose first \<open>$\<close>
  is followed by such a character lexes, parses and expands as the input without its
  beginning up to that \<open>$\<close>, and \<open>expand("a$b")\<close> returns \<open>b\<close>. The \<open>$\<close> kept from
  an escape \<open>$$\<close> is not dropped, whatever character follows it: an input with one
  \<open>$$\<close> and no other \<open>$\<close> is a single string token, with the two characters
  replaced by one, and expands to that text.
\<close>

theorem lexer_drops_stray_dollar:
  "(indexAny (drop off content) (triggers varcount) = Some i
      \<and> content ! (i + off) = CHR ''$''
      \<and> i + off + 1 < length content
      \<and> content ! (i + off + 1) \<noteq> CHR ''$''
      \<and> content ! (i + off + 1) \<noteq> CHR ''{'' \<longrightarrow>
    lexer_loop content off varcount = lexer_loop (drop (i + off + 1) content) 0 varcount)
   \<and> (CHR ''$'' \<notin> set pre \<and> c \<noteq> CHR ''$'' \<and> c \<noteq> CHR ''{'' \<longrightarrow>
    lexer (pre @ CHR ''$'' # c # rest) = lexer (c # rest)
    \<and> expand X cfg opts (pre @ CHR ''$'' # c # rest) sep = expand X cfg opts (c # rest) sep)
   \<and> (CHR ''$'' \<notin> set pre \<and> CHR ''$'' \<notin> set rest' \<longrightarrow>
    lexer (pre @ ''$$'' @ rest') = flush (pre @ ''$'' @ rest')
    \<and> expand X cfg opts (pre @ ''$$'' @ rest') sep = Some (Inr (pre @ ''$'' @ rest')))
   \<and> lexer ''a$b'' = [\<lparr>typ' = tokString, val = ''b''\<rparr>]
   \<and> expand X cfg opts ''a$b'' sep = Some (Inr ''b'')"
proof (intro conjI impI)
  assume "indexAny (drop off content) (triggers varcount) = Some i
      \<and> content ! (i + off) = CHR ''$''
      \<and> i + off + 1 < length content
      \<and> content ! (i + off + 1) \<noteq> CHR ''$''
      \<and> content ! (i + off + 1) \<noteq> CHR ''{''"
  then have "lexer_step content off varcount = Next [] (drop (i + off + 1) content) 0 varcount"
    by (intro lexer_step_stray_dollar) simp_all
  then show "lexer_loop content off varcount = lexer_loop (drop (i + off + 1) content) 0 varcount"
    by (simp add: lexer_loop_Next)
next
  assume a: "CHR ''$'' \<notin> set pre \<and> c \<noteq> CHR ''$'' \<and> c \<noteq> CHR ''{''"
  then show "lexer (pre @ CHR ''$'' # c # rest) = lexer (c # rest)"
    by (simp add: lexer_stray_dollar)
  from a show "expand X cfg opts (pre @ CHR ''$'' # c # rest) sep = expand X cfg opts (c # rest) sep"
    by (simp add: expand_def parseSplice_def lexer_stray_dollar)
next
  assume a: "CHR ''$'' \<notin> set pre \<and> CHR ''$'' \<notin> set rest'"
  then have e: "escapeDollars (pre @ CHR ''$'' # rest') = pre @ ''$$'' @ rest'"
    by (simp add: escapeDollars_split escapeDollars_plain)
  from lexer_escaped [of "pre @ CHR ''$'' # rest'"]
  show l: "lexer (pre @ ''$$'' @ rest') = flush (pre @ ''$'' @ rest')"
    unfolding e by simp
  from l have l': "lexer (pre @ CHR ''$'' # CHR ''$'' # rest') = flush (pre @ CHR ''$'' # rest')"
    by simp
  show "expand X cfg opts (pre @ ''$$'' @ rest') sep = Some (Inr (pre @ ''$'' @ rest'))"
    by (simp add: expand_def parseSplice_def l' parseVarExp_flush)
next
  show "lexer ''a$b'' = [\<lparr>typ' = tokString, val = ''b''\<rparr>]"
    by (rule lexer_a_dollar_b)
  show "expand X cfg opts ''a$b'' sep = Some (Inr ''b'')"
    by (simp add: expand_def parseSplice_def lexer_a_dollar_b parseVarExp_def appendPiece_def)
qed

theorem lexer_drops_stray_dollar_witness:
  "indexAny (drop 1 ''${a$:b}'') (triggers 1) = Some 2
   \<and> lexer_loop ''${a$:b}'' 1 1 = lexer_loop '':b}'' 0 1
   \<and> lexer_loop '':b}'' 0 1 = [sepDefToken, \<lparr>typ' = tokString, val = ''b''\<rparr>, closeToken]
   \<and> lexer ''x $y and ${a}'' = lexer ''y and ${a}''
   \<and> lexer ''y and ${a}'' =
       [\<lparr>typ' = tokString, val = ''y and ''\<rparr>, openToken, \<lparr>typ' = tokString, val = ''a''\<rparr>, closeToken]
   \<and> expand sampleExtern (Some sampleNode) noOptions ''x $y and ${a}'' ''.'' = Some (Inr ''y and x'')
   \<and> lexer ''5$$b'' = [\<lparr>typ' = tokString, val = ''5$b''\<rparr>]
   \<and> expand sampleExtern (Some sampleNode) noOptions ''5$$b'' ''.'' = Some (Inr ''5$b'')
   \<and> expand sampleExtern (Some sampleNode) noOptions ''a$b'' ''.'' = Some (Inr ''b'')"
proof -
  have 1: "indexAny (drop 1 ''${a$:b}'') (triggers 1) = Some 2" by (simp add: triggers_def)
  have 2: "lexer_loop '':b}'' 0 1 = [sepDefToken, \<lparr>typ' = tokString, val = ''b''\<rparr>, closeToken]"
    by code_simp
  have 3: "lexer ''y and ${a}'' =
       [\<lparr>typ' = tokString, val = ''y and ''\<rparr>, openToken, \<lparr>typ' = tokString, val = ''a''\<rparr>, closeToken]"
    by code_simp
  have 4: "expand sampleExtern (Some sampleNode) noOptions ''y and ${a}'' ''.'' = Some (Inr ''y and x'')"
    by code_simp
  show ?thesis
    using lexer_drops_stray_dollar [where off = 1 and content = "''${a$:b}''" and varcount = 1
        and i = 2 and pre = "''x ''" and c = "CHR ''y''" and rest = "'' and ${a}''"
        and X = sampleExtern and cfg = "Some sampleNode" and opts = noOptions and sep = "''.''"]
      lexer_drops_stray_dollar [where pre = "''5''" and rest' = "''b''"
        and X = sampleExtern and cfg = "Some sampleNode" and opts = noOptions and sep = "''.''"]
    by (simp add: 1 2 3 4 triggers_def flush_def)
qed

text \<open>
  C6 as stated fails: in \<open>$$b\<close> the second \<open>$\<close> is followed by \<open>b\<close> and is not the
  last character, and it is sent, in the string token \<open>$b\<close>: it is the \<open>$\<close> kept from
  the escape.
\<close>

theorem lexer_drops_stray_dollar_counterexample:
  "lexer ''$$b'' = [\<lparr>typ' = tokString, val = ''$b''\<rparr>]
   \<and> expand sampleExtern (Some sampleNode) noOptions ''$$b'' ''.'' = Some (Inr ''$b'')"
  by code_simp

text \<open>
  C8 (as amended). Whenever the scan of the lexer stops at a \<open>$\<close> followed by
  \<open>$\<close>, one of the two characters is deleted from the remaining text, no token is
  sent, and the scan resumes after the \<open>$\<close> that is kept, which is therefore never
  read as the start of an expansion. For every text \<open>s\<close>, the input that writes \<open>s\<close>
  with each of its \<open>$\<close> doubled lexes to the single string token \<open>s\<close> (no token for
  the empty text) and expands to exactly \<open>s\<close>: \<open>expand("$$")\<close> returns \<open>$\<close> and
  \<open>$${a}\<close> yields the text \<open>${a}\<close>, not an expansion of \<open>a\<close>.
\<close>

theorem expand_collapses_escaped_dollars:
  "(indexAny (drop off content) (triggers varcount) = Some i
      \<and> content ! (i + off) = CHR ''$''
      \<and> i + off + 1 < length content
      \<and> content ! (i + off + 1) = CHR ''$'' \<longrightarrow>
    lexer_loop content off varcount =
      lexer_loop (take (i + off + 1) content @ drop (i + off + 2) content) (i + off + 1) varcount)
   \<and> lexer (escapeDollars s) = flush s
   \<and> expand X cfg opts (escapeDollars s) sep = Some (Inr s)
   \<and> expand X cfg opts ''$$'' sep = Some (Inr ''$'')
   \<and> expand X cfg opts ''$${a}'' sep = Some (Inr ''${a}'')"
proof (intro conjI impI)
  assume "indexAny (drop off content) (triggers varcount) = Some i
      \<and> content ! (i + off) = CHR ''$''
      \<and> i + off + 1 < length content
      \<and> content ! (i + off + 1) = CHR ''$''"
  then have "lexer_step content off varcount =
      Next [] (take (i + off + 1) content @ drop (i + off + 2) content) (i + off + 1) varcount"
    by (intro lexer_step_escaped_dollar) simp_all
  then show "lexer_loop content off varcount =
      lexer_loop (take (i + off + 1) content @ drop (i + off + 2) content) (i + off + 1) varcount"
    by (simp add: lexer_loop_Next)
next
  show "lexer (escapeDollars s) = flush s" by (rule lexer_escaped)
  show e: "expand X cfg opts (escapeDollars s) sep = Some (Inr s)" for s
    by (simp add: expand_def parseSplice_def lexer_escaped parseVarExp_flush)
  show "expand X cfg opts ''$$'' sep = Some (Inr ''$'')"
    using e [of "''$''"] by simp
  show "expand X cfg opts ''$${a}'' sep = Some (Inr ''${a}'')"
    using e [of "''${a}''"] by simp
qed

theorem expand_collapses_escaped_dollars_witness:
  "indexAny (drop 1 ''a$$b'') (triggers 0) = Some 0
   \<and> lexer_loop ''a$$b'' 1 0 = [\<lparr>typ' = tokString, val = ''a$b''\<rparr>]
   \<and> expand sampleExtern (Some sampleNode) noOptions ''$${a} costs 5$$'' ''.'' = Some (Inr ''${a} costs 5$'')"
proof -
  have 1: "indexAny (drop 1 ''a$$b'') (triggers 0) = Some 0" by (simp add: triggers_def)
  have 2: "lexer_loop ''a$b'' (Suc (Suc 0)) 0 = [\<lparr>typ' = tokString, val = ''a$b''\<rparr>]"
    by code_simp
  show ?thesis
    using expand_collapses_escaped_dollars [of 1 "''a$$b''" 0 0 "''${a} costs 5$''"
        sampleExtern "Some sampleNode" noOptions "''.''"]
    by (simp add: 1 2 triggers_def)
qed

text \<open>
  C8 as stated fails: the \<open>$\<close> kept from \<open>$$\<close> is part of the accumulated text and
  is dropped with it when a \<open>$\<close> followed by another character comes later.
\<close>

theorem expand_collapses_escaped_dollars_counterexample:
  "expand sampleExtern (Some sampleNode) noOptions ''$$a$b'' ''.'' = Some (Inr ''b'')"
  by code_simp

subsection \<open>Close braces outside an expansion\<close>

lemma parseLoop_append:
  "parseLoop pp sep (a @ b) stack =
     (case parseLoop pp sep a stack of
        Inl (err, rest) \<Rightarrow> Inl (err, rest @ b)
      | Inr stack' \<Rightarrow> parseLoop pp sep b stack')"
proof (induction a arbitrary: stack)
  case Nil
  then show ?case by simp
next
  case (Cons t a)
  show ?case
    by (cases "typ' t") (simp_all add: Cons.IH split: sum.splits)
qed

lemma stepOk_append:
  assumes "stepOk pp sep ty v0 v1 a" and "stepOk pp sep ty v1 v2 b"
  shows "stepOk pp sep ty v0 v2 (a @ b)"
  using assms
  unfolding stepOk_def parseLoop_append
  by (auto split: sum.splits prod.splits)

lemma stackFor_top:
  assumes "stackFor varcount stack"
  shows "stack \<noteq> []"
    and "isvar fr = isvar (last stack) \<Longrightarrow> stackFor varcount (butlast stack @ [fr])"
proof -
  from assms show ne: "stack \<noteq> []"
    by (auto simp: stackFor_def)
  assume fr: "isvar fr = isvar (last stack)"
  from ne obtain root rest where s: "stack = root # rest" by (cases stack) auto
  show "stackFor varcount (butlast stack @ [fr])"
  proof (cases "rest = []")
    case True
    with assms s show ?thesis by (simp add: stackFor_def)
  next
    case False
    then have "tl (butlast stack @ [fr]) = butlast rest @ [fr]" "last stack = last rest"
      using s by simp_all
    moreover have "list_all isvar rest"
      using assms s by (simp add: stackFor_def)
    moreover have "length (butlast stack @ [fr]) = length stack"
      using ne by simp
    ultimately show ?thesis
      using assms fr False
      by (auto simp: stackFor_def list_all_iff dest: in_set_butlastD)
  qed
qed

lemma stepOk_Nil: "stepOk pp sep ty varcount varcount []"
  by (simp add: stepOk_def)

lemma stepOk_string:
  assumes "typ' t = tokString"
  shows "stepOk pp sep ty varcount varcount [t]"
  unfolding stepOk_def
proof (intro allI impI)
  fix stack :: "'a parseState list"
  assume s: "stackFor varcount stack"
  have "isvar (appendPiece (last stack) (ConstExp (val t))) = isvar (last stack)"
    by (simp add: appendPiece_def)
  from stackFor_top(2) [OF s this] stackFor_top(1) [OF s] assms
  show "case parseLoop pp sep [t] stack of
          Inl (err, rest) \<Rightarrow> \<not> unreachableError err
        | Inr stack' \<Rightarrow> stackFor varcount stack'"
    by simp
qed

lemma stepOk_strToken: "stepOk pp sep ty varcount varcount (strToken s)"
  by (simp add: strToken_def stepOk_Nil stepOk_string)

lemma stepOk_flush: "stepOk pp sep ty varcount varcount (flush s)"
  by (simp add: flush_def stepOk_Nil stepOk_string)

lemma stepOk_sep:
  assumes "typ' t = tokSep"
  shows "stepOk pp sep ty varcount varcount [t]"
  unfolding stepOk_def
proof (intro allI impI)
  fix stack :: "'a parseState list"
  assume s: "stackFor varcount stack"
  have "isvar ((last stack)\<lparr>st := stRight, op := val t\<rparr>) = isvar (last stack)"
    by simp
  from stackFor_top(2) [OF s this] stackFor_top(1) [OF s] assms
  show "case parseLoop pp sep [t] stack of
          Inl (err, rest) \<Rightarrow> \<not> unreachableError err
        | Inr stack' \<Rightarrow> stackFor varcount stack'"
    by (simp add: unreachableError_def errUnexpectedSep_def)
qed

lemma stepOk_open:
  assumes "typ' t = tokOpen"
  shows "stepOk pp sep ty varcount (varcount + 1) [t]"
  unfolding stepOk_def
proof (intro allI impI)
  fix stack :: "'a parseState list"
  assume s: "stackFor varcount stack"
  then have "stack \<noteq> []" by (rule stackFor_top(1))
  then have "tl (stack @ [\<lparr>st = stLeft, isvar = True, op = [], pieces = (\<lambda>s. [])\<rparr>])
      = tl stack @ [\<lparr>st = stLeft, isvar = True, op = [], pieces = (\<lambda>s. [])\<rparr>]"
    by simp
  with s assms
  show "case parseLoop pp sep [t] stack of
          Inl (err, rest) \<Rightarrow> \<not> unreachableError err
        | Inr stack' \<Rightarrow> stackFor (varcount + 1) stack'"
    by (simp add: stackFor_def nat_add_distrib)
qed

lemma stepOk_close:
  assumes "typ' t = tokClose" and "1 \<le> varcount"
  shows "stepOk pp sep ty varcount (varcount - 1) [t]"
  unfolding stepOk_def
proof (intro allI impI)
  fix stack :: "'a parseState list"
  assume s: "stackFor varcount stack"
  from s assms(2) have len: "2 \<le> length stack"
    by (simp add: stackFor_def)
  then obtain root rest where st: "stack = root # rest" "rest \<noteq> []"
    by (cases stack) (auto simp: Suc_le_eq)
  from s st have all: "list_all isvar rest"
    by (simp add: stackFor_def)
  then have top: "isvar (last stack)"
    using st by (simp add: list_all_iff)
  have bl: "butlast stack = root # butlast rest" "butlast stack \<noteq> []"
    using st by simp_all
  have fin: "finalize pp (last stack) sep = Inl e \<Longrightarrow> \<not> unreachableError e" for e :: "'b error"
    using top by (auto simp: finalize_def unreachableError_def split: if_splits)
  have next_ok: "stackFor (varcount - 1) (butlast (butlast stack) @ [fr])"
    if "isvar fr = isvar (last (butlast stack))" for fr :: "'a parseState"
  proof -
    have "stackFor (varcount - 1) (butlast stack)"
      using s assms(2) all bl st
      by (auto simp: stackFor_def list_all_iff nat_diff_distrib dest: in_set_butlastD)
    from stackFor_top(2) [OF this that] show ?thesis .
  qed
  show "case (parseLoop pp sep [t] stack :: ('b error \<times> token list) + 'a parseState list) of
          Inl (err, rest) \<Rightarrow> \<not> unreachableError err
        | Inr stack' \<Rightarrow> stackFor (varcount - 1) stack'"
  proof (cases "finalize pp (last stack) sep :: 'b error + 'a varEvaler")
    case (Inl e)
    with fin [OF Inl] assms(1) st show ?thesis by simp
  next
    case (Inr piece)
    have "isvar (appendPiece (last (butlast stack)) piece) = isvar (last (butlast stack))"
      by (simp add: appendPiece_def)
    from next_ok [OF this] Inr assms(1) st bl show ?thesis by simp
  qed
qed

lemma lexer_step_stepOk:
  assumes "0 \<le> varcount"
  shows "lexer_step content off varcount = Stop toks \<Longrightarrow>
           stepOk pp sep ty varcount varcount toks"
    and "lexer_step content off varcount = Next toks content' off' varcount' \<Longrightarrow>
           0 \<le> varcount' \<and> stepOk pp sep ty varcount varcount' toks"
proof -
  have sepTok: "stepOk pp sep ty v v (strToken s @ [t])" if "typ' t = tokSep" for s t v
    using that by (intro stepOk_append [OF stepOk_strToken] stepOk_sep)
  have openTok: "stepOk pp sep ty v (v + 1) (strToken s @ [openToken])" for s v
    by (intro stepOk_append [OF stepOk_strToken] stepOk_open) (simp add: openToken_def)
  have closeTok: "stepOk pp sep ty v (v - 1) (strToken s @ [closeToken])"
    if "1 \<le> v" for s v
    using that by (intro stepOk_append [OF stepOk_strToken] stepOk_close) (simp_all add: closeToken_def)
  have close_depth: "1 \<le> varcount"
    if "indexAny (drop off content) (triggers varcount) = Some i" "content ! (i + off) = CHR ''}''"
    for i
  proof -
    from indexAny_SomeD [OF that(1)] have "drop off content ! i \<in> set (triggers varcount)"
      by simp
    moreover have "drop off content ! i = content ! (i + off)"
    proof -
      from indexAny_SomeD [OF that(1)] have "i < length content - off" by simp
      then have "off \<le> length content" by arith
      then show ?thesis by (simp add: add.commute)
    qed
    ultimately have "varcount \<noteq> 0"
      using that(2) by (auto simp: triggers_def split: if_splits)
    with assms show ?thesis by simp
  qed
  show "stepOk pp sep ty varcount varcount toks"
    if "lexer_step content off varcount = Stop toks"
    using that
    by (auto simp: lexer_step_def Let_def stepOk_flush split: option.splits if_splits)
  show "0 \<le> varcount' \<and> stepOk pp sep ty varcount varcount' toks"
    if "lexer_step content off varcount = Next toks content' off' varcount'"
    using that assms close_depth
    by (auto simp: lexer_step_def Let_def stepOk_Nil sepTok openTok closeTok
        sepDefToken_def sepAltToken_def sepErrToken_def split: option.splits if_splits)
qed

lemma lexer_loop_stepOk:
  "0 \<le> varcount \<Longrightarrow> \<exists>varcount'. stepOk pp sep ty varcount varcount' (lexer_loop content off varcount)"
proof (induction content off varcount rule: lexer_loop.induct)
  case (1 content off varcount)
  show ?case
  proof (cases "0 < length content")
    case False
    have "stepOk pp sep ty varcount varcount []"
      by (rule stepOk_Nil)
    with False show ?thesis
      by (auto simp: lexer_loop_Nil)
  next
    case True
    show ?thesis
    proof (cases "lexer_step content off varcount")
      case (Stop toks)
      with True have "lexer_loop content off varcount = toks"
        by (simp add: lexer_loop_Stop)
      with lexer_step_stepOk(1) [OF "1.prems" Stop] show ?thesis
        by blast
    next
      case (Next toks content' off' varcount')
      from lexer_step_stepOk(2) [OF "1.prems" Next]
      have v: "0 \<le> varcount'" and s: "stepOk pp sep ty varcount varcount' toks"
        by blast+
      from "1.IH" [OF True Next v] obtain v2 where
        "stepOk pp sep ty varcount' v2 (lexer_loop content' off' varcount')" by blast
      with s have "stepOk pp sep ty varcount v2 (toks @ lexer_loop content' off' varcount')"
        by (rule stepOk_append)
      then show ?thesis
        using Next by (auto simp: lexer_loop_Next)
    qed
  qed
qed

lemma parse_lexer_errors:
  assumes "(parseVarExp pp (lexer inp) sep :: ('e error \<times> token list) + 'p varEvaler)
             = Inl (err, rest)"
  shows "\<not> unreachableError err"
proof -
  let ?root = "\<lparr>st = stLeft, isvar = False, op = [], pieces = (\<lambda>s. [])\<rparr> :: 'p parseState"
  obtain v where "stepOk pp sep TYPE('e) 0 v (lexer_loop inp 0 0)"
    using lexer_loop_stepOk [of 0 pp sep "TYPE('e)" inp 0] by auto
  moreover have "stackFor 0 [?root]"
    by (simp add: stackFor_def)
  ultimately have "case (parseLoop pp sep (lexer inp) [?root]
                      :: ('e error \<times> token list) + 'p parseState list) of
          Inl (err, rest) \<Rightarrow> \<not> unreachableError err
        | Inr stack' \<Rightarrow> stackFor v stack'"
    unfolding stepOk_def lexer_def by blast
  with assms show ?thesis
    by (auto simp: parseVarExp_def Let_def unreachableError_def errMissingBrace_def
        split: sum.splits if_splits)
qed

lemma parseLoop_strings:
  assumes "\<forall>t \<in> set strs. typ' t = tokString"
  shows "\<exists>fr'. isvar fr' = isvar fr \<and>
           parseLoop pp sep (strs @ toks) [fr] = parseLoop pp sep toks [fr']"
  using assms
proof (induction strs arbitrary: fr)
  case Nil
  then show ?case by auto
next
  case (Cons t strs)
  from Cons.prems have "\<forall>t \<in> set strs. typ' t = tokString" by simp
  from Cons.IH [OF this, of "appendPiece fr (ConstExp (val t))"]
  show ?case
    using Cons.prems by (auto simp: appendPiece_def)
qed

text \<open>
  C5 (as amended). A close token that reaches the parser while the stack holds only the
  root frame makes the parse fail, with the error of \<open>finalize\<close> on a frame that is
  not a variable. But the lexer looks for \<open>}\<close> only inside an open \<open>${\<close>: in an
  input without \<open>$\<close> every close brace is text, the whole input is one string token,
  and parsing succeeds with the constant text of the input (for \<open>a}\<close>, the constant
  \<open>a}\<close>); and parsing fails with that error on no input at all.
\<close>

theorem stray_close_is_literal:
  "(CHR ''$'' \<notin> set inp \<longrightarrow>
      lexer inp = flush inp
      \<and> parseSplice pp inp sep = Some (Inr (if inp = [] then Splice [] else ConstExp inp)))
   \<and> ((\<forall>t \<in> set strs. typ' t = tokString) \<longrightarrow>
      (parseVarExp pp (strs @ closeToken # toks) sep :: ('e error \<times> token list) + 'p varEvaler) =
        Inl (ErrorString ''fatal: processing non-variable state'', toks))
   \<and> (parseSplice pp inp' sep :: ('e error + 'p varEvaler) option)
        \<noteq> Some (Inl (ErrorString ''fatal: processing non-variable state''))"
proof (intro conjI impI)
  assume a: "CHR ''$'' \<notin> set inp"
  then show "lexer inp = flush inp" by (rule lexer_no_dollar)
  from a show "parseSplice pp inp sep = Some (Inr (if inp = [] then Splice [] else ConstExp inp))"
    by (simp add: parseSplice_def lexer_no_dollar parseVarExp_flush)
next
  assume a: "\<forall>t \<in> set strs. typ' t = tokString"
  let ?root = "\<lparr>st = stLeft, isvar = False, op = [], pieces = (\<lambda>s. [])\<rparr>"
  from parseLoop_strings [OF a, of ?root pp sep "closeToken # toks"]
  obtain fr' where "isvar fr' = False"
    "(parseLoop pp sep (strs @ closeToken # toks) [?root]
        :: ('e error \<times> token list) + 'p parseState list) =
       parseLoop pp sep (closeToken # toks) [fr']"
    by auto
  then show "(parseVarExp pp (strs @ closeToken # toks) sep
        :: ('e error \<times> token list) + 'p varEvaler) =
        Inl (ErrorString ''fatal: processing non-variable state'', toks)"
    by (simp add: parseVarExp_def closeToken_def finalize_def)
next
  show "(parseSplice pp inp' sep :: ('e error + 'p varEvaler) option)
        \<noteq> Some (Inl (ErrorString ''fatal: processing non-variable state''))"
  proof
    assume "(parseSplice pp inp' sep :: ('e error + 'p varEvaler) option)
        = Some (Inl (ErrorString ''fatal: processing non-variable state''))"
    then obtain rest where
      "(parseVarExp pp (lexer inp') sep :: ('e error \<times> token list) + 'p varEvaler)
         = Inl (ErrorString ''fatal: processing non-variable state'', rest)"
      by (auto simp: parseSplice_def split: sum.splits prod.splits if_splits)
    from parse_lexer_errors [OF this] show False
      by (simp add: unreachableError_def)
  qed
qed

theorem stray_close_is_literal_witness:
  "CHR ''$'' \<notin> set ''a}''
   \<and> lexer ''a}'' = [\<lparr>typ' = tokString, val = ''a}''\<rparr>]
   \<and> (parseSplice (\<lambda>s sep. s) ''a}'' ''.'' :: (unit error + string varEvaler) option)
      = Some (Inr (ConstExp ''a}''))
   \<and> (parseVarExp (\<lambda>s sep. s) [\<lparr>typ' = tokString, val = ''a''\<rparr>, closeToken] ''.''
        :: (unit error \<times> token list) + string varEvaler)
      = Inl (ErrorString ''fatal: processing non-variable state'', [])
   \<and> (parseSplice (\<lambda>s sep. s) ''${a}}'' ''.'' :: (unit error + string varEvaler) option)
      \<noteq> Some (Inl (ErrorString ''fatal: processing non-variable state''))"
  using stray_close_is_literal [of "''a}''" "\<lambda>s sep. s" "''.''"
      "[\<lparr>typ' = tokString, val = ''a''\<rparr>]" "[]" "''${a}}''", where ?'e = unit]
  by (simp add: flush_def)

text \<open>C5 as stated fails: parsing \<open>a}\<close> does not fail.\<close>

theorem stray_close_counterexample:
  "(parseSplice (\<lambda>s sep. s) ''a}'' ''.'' :: (unit error + string varEvaler) option)
     = Some (Inr (ConstExp ''a}''))"
  by code_simp

subsection \<open>A parse error while the lexer still has tokens to send\<close>

text \<open>
  In \<open>${a:b:c}\<close> the parser reports the second separator while the lexer has still
  the string \<open>c\<close> and the close token to send: the first of them fills the buffer of
  the channel, the lexer blocks on the second, and \<open>parseSplice\<close>, which waits for
  the lexer to close \<open>errs\<close>, does not return. In \<open>${a:b:}\<close> only the close token
  is left, and the error is returned.
\<close>

lemma parseSplice_waits_for_lexer:
  "(parseSplice pp ''${a:b:c}'' sep :: ('e error + 'p varEvaler) option) = None
   \<and> (parseSplice pp ''${a:b:}'' sep :: ('e error + 'p varEvaler) option)
       = Some (Inl (ErrorString errUnexpectedSep))"
proof -
  have 1: "lexer ''${a:b:c}'' =
      [openToken, \<lparr>typ' = tokString, val = ''a''\<rparr>, sepDefToken,
       \<lparr>typ' = tokString, val = ''b''\<rparr>, sepDefToken,
       \<lparr>typ' = tokString, val = ''c''\<rparr>, closeToken]"
    by code_simp
  have 2: "lexer ''${a:b:}'' =
      [openToken, \<lparr>typ' = tokString, val = ''a''\<rparr>, sepDefToken,
       \<lparr>typ' = tokString, val = ''b''\<rparr>, sepDefToken, closeToken]"
    by code_simp
  show ?thesis
    unfolding parseSplice_def 1 2
    by (simp add: parseVarExp_def openToken_def closeToken_def sepDefToken_def
        appendPiece_def)
qed

subsection \<open>The parser: the shape of the tree\<close>

lemma framePieces_appendPiece:
  "framePieces Q fr \<Longrightarrow> Q piece \<Longrightarrow> framePieces Q (appendPiece fr piece)"
  by (cases "st fr") (auto simp: framePieces_def appendPiece_def)

lemma framePieces_switch:
  "framePieces Q fr \<Longrightarrow> framePieces Q (fr\<lparr>st := s, op := v\<rparr>)"
  by (simp add: framePieces_def)

lemma framePieces_new: "framePieces Q \<lparr>st = s, isvar = b, op = v, pieces = (\<lambda>s. [])\<rparr>"
  by (simp add: framePieces_def)

lemma parseLoop_invariant:
  assumes fin: "\<And>fr e. framePieces Q fr \<Longrightarrow>
                 (finalize pp fr sep :: 'e error + 'p varEvaler) = Inr e \<Longrightarrow> Q e"
    and str: "\<And>tok. tok \<in> set toks \<Longrightarrow> typ' tok = tokString \<Longrightarrow> Q (ConstExp (val tok))"
    and inv: "list_all (framePieces Q) stack"
    and res: "(parseLoop pp sep toks stack :: ('e error \<times> token list) + 'p parseState list) = Inr stack'"
  shows "list_all (framePieces Q) stack'"
  using str inv res
proof (induction toks arbitrary: stack)
  case Nil
  then show ?case by simp
next
  case (Cons tok toks)
  let ?run = "parseLoop pp sep :: token list \<Rightarrow> 'p parseState list
      \<Rightarrow> ('e error \<times> token list) + 'p parseState list"
  let ?fin = "finalize pp :: 'p parseState \<Rightarrow> string \<Rightarrow> 'e error + 'p varEvaler"
  have str': "\<And>t. t \<in> set toks \<Longrightarrow> typ' t = tokString \<Longrightarrow> Q (ConstExp (val t))"
    using Cons.prems(1) by simp
  show ?case
  proof (cases "typ' tok")
    case tokOpen
    with Cons.prems have "?run toks
        (stack @ [\<lparr>st = stLeft, isvar = True, op = [], pieces = (\<lambda>s. [])\<rparr>]) = Inr stack'"
      by simp
    moreover have "list_all (framePieces Q)
        (stack @ [\<lparr>st = stLeft, isvar = True, op = [], pieces = (\<lambda>s. [])\<rparr>])"
      using Cons.prems(2) by (simp add: framePieces_new)
    ultimately show ?thesis
      using Cons.IH str' by blast
  next
    case tokClose
    from Cons.prems(3) tokClose have ne: "stack \<noteq> []"
      by (auto split: if_splits)
    from Cons.prems(3) tokClose ne obtain piece where
      f: "?fin (last stack) sep = Inr piece"
      by (auto split: sum.splits)
    from Cons.prems(3) tokClose ne f have ne': "butlast stack \<noteq> []"
      by (auto split: if_splits)
    from Cons.prems(3) tokClose ne f ne' have
      r: "?run toks
            (butlast (butlast stack) @ [appendPiece (last (butlast stack)) piece]) = Inr stack'"
      by simp
    have "framePieces Q (last stack)"
      using Cons.prems(2) ne by (simp add: list_all_iff)
    then have q: "Q piece" using f fin by blast
    have "framePieces Q (last (butlast stack))"
      using Cons.prems(2) ne' by (meson in_set_butlastD last_in_set list_all_iff)
    then have "framePieces Q (appendPiece (last (butlast stack)) piece)"
      using q by (rule framePieces_appendPiece)
    moreover have "list_all (framePieces Q) (butlast (butlast stack))"
      using Cons.prems(2) by (meson in_set_butlastD list_all_iff)
    ultimately have "list_all (framePieces Q)
        (butlast (butlast stack) @ [appendPiece (last (butlast stack)) piece])"
      by simp
    then show ?thesis
      using Cons.IH r str' by blast
  next
    case tokSep
    from Cons.prems(3) tokSep have ne: "stack \<noteq> []"
      by (auto split: if_splits)
    from Cons.prems(3) tokSep ne have
      r: "?run toks (butlast stack @ [(last stack)\<lparr>st := stRight, op := val tok\<rparr>])
            = Inr stack'"
      by (auto split: if_splits)
    have "framePieces Q (last stack)"
      using Cons.prems(2) ne by (simp add: list_all_iff)
    then have "framePieces Q ((last stack)\<lparr>st := stRight, op := val tok\<rparr>)"
      by (rule framePieces_switch)
    moreover have "list_all (framePieces Q) (butlast stack)"
      using Cons.prems(2) by (meson in_set_butlastD list_all_iff)
    ultimately have "list_all (framePieces Q)
        (butlast stack @ [(last stack)\<lparr>st := stRight, op := val tok\<rparr>])"
      by simp
    then show ?thesis
      using Cons.IH r str' by blast
  next
    case tokString
    from Cons.prems(3) tokString have ne: "stack \<noteq> []"
      by (auto split: if_splits)
    from Cons.prems(3) tokString ne have
      r: "?run toks (butlast stack @ [appendPiece (last stack) (ConstExp (val tok))])
            = Inr stack'"
      by simp
    have q: "Q (ConstExp (val tok))"
      using Cons.prems(1) tokString by simp
    have "framePieces Q (last stack)"
      using Cons.prems(2) ne by (simp add: list_all_iff)
    then have "framePieces Q (appendPiece (last stack) (ConstExp (val tok)))"
      using q by (rule framePieces_appendPiece)
    moreover have "list_all (framePieces Q) (butlast stack)"
      using Cons.prems(2) by (meson in_set_butlastD list_all_iff)
    ultimately have "list_all (framePieces Q)
        (butlast stack @ [appendPiece (last stack) (ConstExp (val tok))])"
      by simp
    then show ?thesis
      using Cons.IH r str' by blast
  qed
qed

lemma parseVarExp_root:
  assumes fin: "\<And>fr e. framePieces Q fr \<Longrightarrow>
                 (finalize pp fr sep :: 'e error + 'p varEvaler) = Inr e \<Longrightarrow> Q e"
    and str: "\<And>tok. tok \<in> set toks \<Longrightarrow> typ' tok = tokString \<Longrightarrow> Q (ConstExp (val tok))"
    and res: "(parseVarExp pp toks sep :: ('e error \<times> token list) + 'p varEvaler) = Inr e"
  shows "\<exists>ps. list_all Q ps \<and> (if length ps = 1 then e = ps ! 0 else e = Splice ps)"
proof -
  let ?root = "\<lparr>st = stLeft, isvar = False, op = [], pieces = (\<lambda>s. [])\<rparr>"
  from res obtain stack where
    s: "(parseLoop pp sep toks [?root] :: ('e error \<times> token list) + 'p parseState list) = Inr stack"
    by (auto simp: parseVarExp_def split: sum.splits)
  have inv: "list_all (framePieces Q) stack"
  proof (rule parseLoop_invariant [where Q = Q and pp = pp and sep = sep and toks = toks
        and stack = "[?root]" and stack' = stack])
    show "list_all (framePieces Q) [?root]"
      by (simp add: framePieces_new)
    show "(parseLoop pp sep toks [?root] :: ('e error \<times> token list) + 'p parseState list) = Inr stack"
      by (rule s)
    show "Q e" if "framePieces Q fr" "(finalize pp fr sep :: 'e error + 'p varEvaler) = Inr e"
      for fr e using that by (rule fin)
    show "Q (ConstExp (val tok))" if "tok \<in> set toks" "typ' tok = tokString" for tok
      using that by (rule str)
  qed
  from res s have "\<not> 1 < length stack" "length stack \<noteq> 0"
    by (auto simp: parseVarExp_def split: if_splits)
  then have len: "length stack = 1"
    by (cases stack) auto
  then have "framePieces Q (stack ! 0)"
    using inv by (simp add: list_all_length)
  then have "list_all Q (pieces (stack ! 0) stLeft)"
    by (simp add: framePieces_def)
  moreover have "if length (pieces (stack ! 0) stLeft) = 1
      then e = pieces (stack ! 0) stLeft ! 0 else e = Splice (pieces (stack ! 0) stLeft)"
    using res s len by (auto simp: parseVarExp_def Let_def split: if_splits)
  ultimately show ?thesis by blast
qed

lemma splicesOk_extract: "list_all splicesOk ps \<Longrightarrow> splicesOk (extract' ps)"
  by (induction ps rule: extract'.induct) simp_all

lemma splicesOk_finalizeLeft:
  "ps \<noteq> [] \<Longrightarrow> list_all splicesOk ps \<Longrightarrow> splicesOk (finalizeLeft pp sep ps)"
  by (induction pp sep ps rule: finalizeLeft.induct) simp_all

lemma splicesOk_finalize:
  "framePieces splicesOk fr \<Longrightarrow> finalize pp fr sep = Inr e \<Longrightarrow> splicesOk e"
  by (auto simp: finalize_def framePieces_def splicesOk_extract splicesOk_finalizeLeft
      split: if_splits)

lemma splicesOk_rootOk: "splicesOk e \<Longrightarrow> rootOk e"
  by (cases e) auto

text \<open>
  C9 (as amended). For every token sequence, and so for every input, on which parsing
  succeeds, every splice of the resulting tree has two pieces or more, with two
  exceptions. The root result collapses only a sequence of exactly one piece: it is a
  splice with no piece when the left side of the root is empty, as for the empty
  input. And the left side of an expansion without separator is always the splice of
  the pieces of its frame, of which there may be only one. The two sides of an
  expansion with a separator are collapsed: the empty constant for no piece, the piece
  itself for one.
\<close>

theorem parsed_splices:
  "((parseVarExp pp toks sep :: ('e error \<times> token list) + 'p varEvaler) = Inr e \<longrightarrow> rootOk e)
   \<and> ((parseSplice pp inp sep :: ('e error + 'p varEvaler) option) = Some (Inr e) \<longrightarrow> rootOk e)
   \<and> (parseSplice pp [] sep :: ('e error + 'p varEvaler) option) = Some (Inr (Splice []))"
proof -
  have root: "rootOk e"
    if res: "(parseVarExp pp toks sep :: ('e error \<times> token list) + 'p varEvaler) = Inr e" for toks
  proof -
    have "\<exists>ps. list_all splicesOk ps \<and> (if length ps = 1 then e = ps ! 0 else e = Splice ps)"
    proof (rule parseVarExp_root [where Q = splicesOk and pp = pp and sep = sep and toks = toks])
      show "(parseVarExp pp toks sep :: ('e error \<times> token list) + 'p varEvaler) = Inr e"
        by (rule res)
      show "splicesOk e" if "framePieces splicesOk fr"
        "(finalize pp fr sep :: 'e error + 'p varEvaler) = Inr e" for fr e
        using that by (rule splicesOk_finalize)
      show "splicesOk (ConstExp (val tok))" for tok
        by simp
    qed
    then obtain ps where ps: "list_all splicesOk ps"
      "if length ps = 1 then e = ps ! 0 else e = Splice ps" by blast
    show ?thesis
    proof (cases "length ps = 1")
      case True
      with ps have "splicesOk e" by (simp add: list_all_length)
      then show ?thesis by (rule splicesOk_rootOk)
    next
      case False
      with ps show ?thesis by simp
    qed
  qed
  have "(parseSplice pp [] sep :: ('e error + 'p varEvaler) option) = Some (Inr (Splice []))"
    by (simp add: parseSplice_def lexer_def lexer_loop_Nil parseVarExp_def)
  then show ?thesis
    using root by (simp add: parseSplice_Inr)
qed

theorem parsed_splices_witness:
  "(parseSplice (\<lambda>s sep. s) ''x${a.b:${c}d}y${${e}}'' ''.''
      :: (unit error + string varEvaler) option)
     = Some (Inr (Splice [ConstExp ''x'',
         Expansion (ConstExp ''a.b'') (Some (Splice [Reference ''c'', ConstExp ''d''])) ''.'' '':'',
         ConstExp ''y'',
         Expansion (Splice [Reference ''e'']) None ''.'' []]))
   \<and> rootOk (Splice [ConstExp ''x'',
         Expansion (ConstExp ''a.b'') (Some (Splice [Reference ''c'', ConstExp ''d''])) ''.'' '':'',
         ConstExp ''y'',
         Expansion (Splice [Reference ''e'']) None ''.'' []] :: string varEvaler)
   \<and> (parseVarExp (\<lambda>s sep. s) [openToken, \<lparr>typ' = tokString, val = ''a''\<rparr>, sepDefToken, closeToken] ''.''
        :: (unit error \<times> token list) + string varEvaler)
     = Inr (Expansion (ConstExp ''a'') (Some (ConstExp [])) ''.'' '':'')
   \<and> rootOk (Expansion (ConstExp ''a'') (Some (ConstExp [])) ''.'' '':'' :: string varEvaler)"
proof -
  have 1: "(parseSplice (\<lambda>s sep. s) ''x${a.b:${c}d}y${${e}}'' ''.''
      :: (unit error + string varEvaler) option)
     = Some (Inr (Splice [ConstExp ''x'',
         Expansion (ConstExp ''a.b'') (Some (Splice [Reference ''c'', ConstExp ''d''])) ''.'' '':'',
         ConstExp ''y'',
         Expansion (Splice [Reference ''e'']) None ''.'' []]))"
    by code_simp
  have 2: "(parseVarExp (\<lambda>s sep. s) [openToken, \<lparr>typ' = tokString, val = ''a''\<rparr>, sepDefToken, closeToken] ''.''
        :: (unit error \<times> token list) + string varEvaler)
     = Inr (Expansion (ConstExp ''a'') (Some (ConstExp [])) ''.'' '':'')"
    by code_simp
  show ?thesis
    using parsed_splices [where ?'e = unit, of "\<lambda>s sep. s"
        "[openToken, \<lparr>typ' = tokString, val = ''a''\<rparr>, sepDefToken, closeToken]" "''.''"
        "Expansion (ConstExp ''a'') (Some (ConstExp [])) ''.'' '':''"]
      parsed_splices [where ?'e = unit, of "\<lambda>s sep. s" "[]" "''.''"
        "Splice [ConstExp ''x'',
         Expansion (ConstExp ''a.b'') (Some (Splice [Reference ''c'', ConstExp ''d''])) ''.'' '':'',
         ConstExp ''y'',
         Expansion (Splice [Reference ''e'']) None ''.'' []]" "''x${a.b:${c}d}y${${e}}''"]
    unfolding 1 2 by simp
qed

text \<open>C9 as stated fails: the empty input parses to a splice with no piece, and
  \<open>${${a}}\<close> to an expansion whose left side is a splice with exactly one piece.\<close>

theorem parsed_splices_counterexample:
  "(parseSplice (\<lambda>s sep. s) '''' ''.'' :: (unit error + string varEvaler) option)
     = Some (Inr (Splice []))
   \<and> (parseSplice (\<lambda>s sep. s) ''${${a}}'' ''.'' :: (unit error + string varEvaler) option)
       = Some (Inr (Expansion (Splice [Reference ''a'']) None ''.'' []))"
  by code_simp

text \<open>A splice with no piece evaluates like the empty constant, and a splice with one
  piece like that piece.\<close>

lemma splice_collapse_eval:
  "eval X cfg opts (Splice []) = eval X cfg opts (ConstExp [])
   \<and> eval X cfg opts (Splice [p]) = eval X cfg opts p"
  by (cases "eval X cfg opts p") simp_all

lemma lexer_step_strings:
  assumes "lexer_step content off varcount = Stop toks
           \<or> lexer_step content off varcount = Next toks content' off' varcount'"
    and "t \<in> set toks" and "typ' t = tokString"
  shows "val t \<noteq> []"
  using assms
  by (auto simp: lexer_step_def Let_def strToken_def flush_def openToken_def closeToken_def
      sepDefToken_def sepAltToken_def sepErrToken_def split: option.splits if_splits)

lemma lexer_loop_strings:
  "t \<in> set (lexer_loop content off varcount) \<Longrightarrow> typ' t = tokString \<Longrightarrow> val t \<noteq> []"
proof (induction content off varcount rule: lexer_loop.induct)
  case (1 content off varcount)
  show ?case
  proof (cases "0 < length content")
    case False
    with "1.prems" show ?thesis
      by (simp add: lexer_loop_Nil)
  next
    case True
    show ?thesis
    proof (cases "lexer_step content off varcount")
      case (Stop toks)
      with True "1.prems" have "t \<in> set toks"
        by (simp add: lexer_loop_Stop)
      with Stop "1.prems"(2) show ?thesis
        using lexer_step_strings by blast
    next
      case (Next toks content' off' varcount')
      with "1.prems" have "t \<in> set toks \<or> t \<in> set (lexer_loop content' off' varcount')"
        by (simp add: lexer_loop_Next)
      then show ?thesis
      proof
        assume "t \<in> set toks"
        with Next "1.prems"(2) show ?thesis
          using lexer_step_strings by blast
      next
        assume "t \<in> set (lexer_loop content' off' varcount')"
        with "1.IH" [OF True Next] "1.prems"(2) show ?thesis
          by simp
      qed
    qed
  qed
qed

lemma pieceOk_references:
  "pieceOk pp sep e \<Longrightarrow> set (references e) \<subseteq> (\<lambda>s. pp s sep) ` {s. s \<noteq> []}"
  by (cases e) auto

lemma pieces_references:
  "list_all (pieceOk pp sep) ps \<Longrightarrow>
     set (concat (map references ps)) \<subseteq> (\<lambda>s. pp s sep) ` {s. s \<noteq> []}"
  using pieceOk_references by (fastforce simp: list_all_iff)

lemma extract_references:
  "list_all (pieceOk pp sep) ps \<Longrightarrow>
     set (references (extract' ps)) \<subseteq> (\<lambda>s. pp s sep) ` {s. s \<noteq> []}"
proof (induction ps rule: extract'.induct)
  case 1
  then show ?case by simp
next
  case (2 p)
  then show ?case using pieceOk_references by simp
next
  case (3 p q ps)
  then show ?case using pieces_references [of pp sep "p # q # ps"] by simp
qed

lemma finalizeLeft_cases:
  "(\<exists>str. ps = [ConstExp str] \<and> finalizeLeft pp sep ps = Reference (pp str sep))
   \<or> finalizeLeft pp sep ps = Expansion (Splice ps) None sep []"
  by (induction pp sep ps rule: finalizeLeft.induct) simp_all

lemma pieceOk_finalizeLeft:
  assumes "list_all (pieceOk pp sep) ps"
  shows "pieceOk pp sep (finalizeLeft pp sep ps)"
  using finalizeLeft_cases [of ps pp sep]
proof
  assume "\<exists>str. ps = [ConstExp str] \<and> finalizeLeft pp sep ps = Reference (pp str sep)"
  then show ?thesis using assms by auto
next
  assume "finalizeLeft pp sep ps = Expansion (Splice ps) None sep []"
  then show ?thesis using pieces_references [OF assms] by simp
qed

lemma pieceOk_finalize:
  assumes "framePieces (pieceOk pp sep) fr" and "finalize pp fr sep = Inr e"
  shows "pieceOk pp sep e"
proof (cases "st fr")
  case stLeft
  with assms(2) have "e = finalizeLeft pp sep (pieces fr stLeft)"
    by (auto simp: finalize_def split: if_splits)
  then show ?thesis
    using assms(1) by (simp add: framePieces_def pieceOk_finalizeLeft)
next
  case stRight
  with assms(2) have "e = Expansion (extract' (pieces fr stLeft))
      (Some (extract' (pieces fr stRight))) sep (op fr)"
    by (auto simp: finalize_def split: if_splits)
  then show ?thesis
    using assms(1) extract_references [of pp sep "pieces fr stLeft"]
      extract_references [of pp sep "pieces fr stRight"]
    by (simp add: framePieces_def)
qed

text \<open>
  C10. \<open>finalize\<close> fails with the error \<open>empty expansion\<close> on every frame of an
  expansion whose left side has no piece, so parsing \<open>${}\<close> or \<open>${:}\<close> fails with
  that error; and for every input on which parsing succeeds, the path of every
  reference node of the resulting tree was parsed, with the path separator of the
  call, from a text that is not empty.
\<close>

theorem references_from_nonempty_text:
  "(isvar fr \<and> pieces fr stLeft = [] \<longrightarrow>
      (finalize pp fr sep :: 'e error + 'p varEvaler) = Inl (ErrorString ''empty expansion''))
   \<and> (parseSplice pp ''${}'' sep :: ('e error + 'p varEvaler) option)
       = Some (Inl (ErrorString ''empty expansion''))
   \<and> (parseSplice pp ''${:}'' sep :: ('e error + 'p varEvaler) option)
       = Some (Inl (ErrorString ''empty expansion''))
   \<and> ((parseSplice pp inp sep :: ('e error + 'p varEvaler) option) = Some (Inr e) \<longrightarrow>
      set (references e) \<subseteq> (\<lambda>s. pp s sep) ` {s. s \<noteq> []})"
proof (intro conjI impI)
  assume "isvar fr \<and> pieces fr stLeft = []"
  then show "(finalize pp fr sep :: 'e error + 'p varEvaler) = Inl (ErrorString ''empty expansion'')"
    by (simp add: finalize_def)
next
  have 1: "lexer ''${}'' = [openToken, closeToken]" by code_simp
  show "(parseSplice pp ''${}'' sep :: ('e error + 'p varEvaler) option)
       = Some (Inl (ErrorString ''empty expansion''))"
    unfolding parseSplice_def 1
    by (simp add: parseVarExp_def openToken_def closeToken_def finalize_def)
next
  have 2: "lexer ''${:}'' = [openToken, sepDefToken, closeToken]" by code_simp
  show "(parseSplice pp ''${:}'' sep :: ('e error + 'p varEvaler) option)
       = Some (Inl (ErrorString ''empty expansion''))"
    unfolding parseSplice_def 2
    by (simp add: parseVarExp_def openToken_def closeToken_def sepDefToken_def finalize_def)
next
  assume res: "(parseSplice pp inp sep :: ('e error + 'p varEvaler) option) = Some (Inr e)"
  have "\<exists>ps. list_all (pieceOk pp sep) ps \<and> (if length ps = 1 then e = ps ! 0 else e = Splice ps)"
  proof (rule parseVarExp_root [where Q = "pieceOk pp sep" and pp = pp and sep = sep
        and toks = "lexer inp"])
    show "(parseVarExp pp (lexer inp) sep :: ('e error \<times> token list) + 'p varEvaler) = Inr e"
      using res by (simp add: parseSplice_Inr)
    show "pieceOk pp sep e" if "framePieces (pieceOk pp sep) fr"
      "(finalize pp fr sep :: 'e error + 'p varEvaler) = Inr e" for fr e
      using that by (rule pieceOk_finalize)
    show "pieceOk pp sep (ConstExp (val tok))" if "tok \<in> set (lexer inp)" "typ' tok = tokString"
      for tok
      using that lexer_loop_strings [of tok inp 0 0] by (simp add: lexer_def)
  qed
  then obtain ps where ps: "list_all (pieceOk pp sep) ps"
    "if length ps = 1 then e = ps ! 0 else e = Splice ps" by blast
  show "set (references e) \<subseteq> (\<lambda>s. pp s sep) ` {s. s \<noteq> []}"
  proof (cases "length ps = 1")
    case True
    with ps have "pieceOk pp sep e" by (simp add: list_all_length)
    then show ?thesis by (rule pieceOk_references)
  next
    case False
    with ps show ?thesis using pieces_references [of pp sep ps] by simp
  qed
qed

theorem references_from_nonempty_text_witness:
  "(finalize (\<lambda>s sep. s) \<lparr>st = stRight, isvar = True, op = '':'', pieces = (\<lambda>s. [])\<rparr> ''.''
      :: unit error + string varEvaler) = Inl (ErrorString ''empty expansion'')
   \<and> (parseSplice (\<lambda>s sep. s) ''${a.b:${c}}-${${d}x}'' ''.''
      :: (unit error + string varEvaler) option)
     = Some (Inr (Splice [Expansion (ConstExp ''a.b'') (Some (Reference ''c'')) ''.'' '':'',
         ConstExp ''-'',
         Expansion (Splice [Reference ''d'', ConstExp ''x'']) None ''.'' []]))
   \<and> set (references (Splice [Expansion (ConstExp ''a.b'') (Some (Reference ''c'')) ''.'' '':'',
         ConstExp ''-'',
         Expansion (Splice [Reference ''d'', ConstExp ''x'']) None ''.'' []]))
     = {''c'', ''d''}
   \<and> {''c'', ''d''} \<subseteq> (\<lambda>s. s) ` {s :: string. s \<noteq> []}"
proof -
  have 1: "(parseSplice (\<lambda>s sep. s) ''${a.b:${c}}-${${d}x}'' ''.''
      :: (unit error + string varEvaler) option)
     = Some (Inr (Splice [Expansion (ConstExp ''a.b'') (Some (Reference ''c'')) ''.'' '':'',
         ConstExp ''-'',
         Expansion (Splice [Reference ''d'', ConstExp ''x'']) None ''.'' []]))"
    by code_simp
  show ?thesis
    using references_from_nonempty_text [where ?'e = unit,
        of "\<lparr>st = stRight, isvar = True, op = '':'', pieces = (\<lambda>s. [])\<rparr>" "\<lambda>s sep. s" "''.''"
        "''${a.b:${c}}-${${d}x}''"
        "Splice [Expansion (ConstExp ''a.b'') (Some (Reference ''c'')) ''.'' '':'',
         ConstExp ''-'',
         Expansion (Splice [Reference ''d'', ConstExp ''x'']) None ''.'' []]"]
    unfolding 1 by auto
qed

end
